theory Spec2Isabelle
  imports Main "HOL-Library.Word"
begin

unbundle bit_operations_syntax

text \<open>
  A model of the two userspace drivers for Panasonic KV-series document scanners:
  kv-s3105c, which tunnels SCSI commands over USB bulk transfers (kvs3105usb.c), and
  kv-ss905c, which uses the SCSI generic ioctl (kvss905c.c), each with its scanning program
  (kvscanner.c). The command layer and the loops of \<^verbatim>\<open>main\<close> are functions of an arbitrary
  transport; the two transports are functions of what the bus or the device file answers.
  C functions keep their names; a call that may not return is a partial function.
\<close>

section \<open>Machine integers and byte order\<close>

type_synonym u8 = "8 word"
type_synonym u16 = "16 word"
type_synonym u32 = "32 word"

text \<open>The byte order of the host the driver is compiled for.\<close>

datatype byte_order = LittleEndian | BigEndian

text \<open>Four bytes, most significant first, as one 32-bit value.\<close>

definition be32 :: "u8 \<Rightarrow> u8 \<Rightarrow> u8 \<Rightarrow> u8 \<Rightarrow> u32" where
  "be32 a b c d =
     push_bit 24 (ucast a) OR push_bit 16 (ucast b) OR push_bit 8 (ucast c) OR ucast d"

text \<open>\<^verbatim>\<open>*((uint32_t *) &p[off])\<close>: a 32-bit load in the byte order of the host.\<close>

definition load_u32 :: "byte_order \<Rightarrow> u8 list \<Rightarrow> nat \<Rightarrow> u32" where
  "load_u32 host p off =
     (case host of
        BigEndian \<Rightarrow> be32 (p ! off) (p ! (off + 1)) (p ! (off + 2)) (p ! (off + 3))
      | LittleEndian \<Rightarrow> be32 (p ! (off + 3)) (p ! (off + 2)) (p ! (off + 1)) (p ! off))"

text \<open>\<^verbatim>\<open>ntohl\<close>: the identity on a big-endian host, a byte swap on a little-endian one.\<close>

definition ntohl :: "byte_order \<Rightarrow> u32 \<Rightarrow> u32" where
  "ntohl host x =
     (case host of
        BigEndian \<Rightarrow> x
      | LittleEndian \<Rightarrow>
          be32 (ucast x) (ucast (drop_bit 8 x)) (ucast (drop_bit 16 x)) (ucast (drop_bit 24 x)))"

text \<open>
  \<^verbatim>\<open>ntohl(*((uint32_t *) &p[off]))\<close>: the four bytes at \<open>off\<close> read as a big-endian
  number. Lemma \<open>ntohl_load_u32\<close> below shows that the composition does not depend on the
  host.
\<close>

definition be32_at :: "u8 list \<Rightarrow> nat \<Rightarrow> u32" where
  "be32_at p off = be32 (p ! off) (p ! (off + 1)) (p ! (off + 2)) (p ! (off + 3))"

section \<open>The transport as seen by the command layer\<close>

text \<open>
  Both drivers funnel every SCSI command through one function: \<^verbatim>\<open>send_command\<close>
  (kvs3105usb.c, USB bulk) or \<^verbatim>\<open>scsi_command\<close> (kvss905c.c, SCSI generic). The command
  layer is modelled over an arbitrary such function. The state it acts on holds the
  caller's \<^verbatim>\<open>requestsense\<close> buffer and the device behind the handle.
\<close>

datatype dxfer = SG_DXFER_TO_DEV | SG_DXFER_FROM_DEV

text \<open>
  The arguments of one call: direction, command bytes (the CDB), data buffer and its
  length. \<open>payload = None\<close> is a \<^verbatim>\<open>NULL\<close> buffer. For a transfer from the device the
  previous contents of the buffer are not modelled and the payload is the empty list.
\<close>

record request =
  xfer_direction :: dxfer
  cdb :: "u8 list"
  payload :: "u8 list option"
  payload_length :: nat

record 'd world =
  requestsense :: "u8 list"
  device :: 'd

text \<open>
  A transport returns the function's return code and the contents of the data buffer
  after the call, and updates the state.
\<close>

type_synonym 'd transport = "request \<Rightarrow> 'd world \<Rightarrow> (int \<times> u8 list) \<times> 'd world"

section \<open>Command codec\<close>

definition kMaxBuffer :: u32 where
  "kMaxBuffer = 0x10000"

definition KVS3105_READ_IMAGE :: u8 where
  "KVS3105_READ_IMAGE = 0"

definition KVS3105_READ_PICTURE_ELEMENT_SIZE :: u8 where
  "KVS3105_READ_PICTURE_ELEMENT_SIZE = 0x80"

text \<open>\<^verbatim>\<open>kvs3105_read\<close> and \<^verbatim>\<open>kvss905c_read\<close> (the same code over the two transports).\<close>

definition kvs3105_read ::
  "'d transport \<Rightarrow> u8 \<Rightarrow> u8 \<Rightarrow> u8 \<Rightarrow> u32 \<Rightarrow> 'd world \<Rightarrow> (int \<times> u8 list) \<times> 'd world" where
  "kvs3105_read T type q1 q2 len w =
     T \<lparr>xfer_direction = SG_DXFER_FROM_DEV,
        cdb = [0x28, 0, type, 0, q1, q2,
                   ucast (drop_bit 16 len), ucast (drop_bit 8 len), ucast len, 0],
        payload = Some [],
        payload_length = unat len\<rparr> w"

definition kvss905c_read ::
  "'d transport \<Rightarrow> u8 \<Rightarrow> u8 \<Rightarrow> u8 \<Rightarrow> u32 \<Rightarrow> 'd world \<Rightarrow> (int \<times> u8 list) \<times> 'd world" where
  "kvss905c_read T type q1 q2 len w =
     T \<lparr>xfer_direction = SG_DXFER_FROM_DEV,
        cdb = [0x28, 0, type, 0, q1, q2,
                   ucast (drop_bit 16 len), ucast (drop_bit 8 len), ucast len, 0],
        payload = Some [],
        payload_length = unat len\<rparr> w"

text \<open>
  \<^verbatim>\<open>get_data_buffer_status\<close> of kvs3105usb.c. A non-zero return code leaves the two
  outputs unwritten (\<open>Inl\<close>); otherwise the result is \<open>(window_id, length)\<close>.
\<close>

definition get_data_buffer_status ::
  "'d transport \<Rightarrow> 'd world \<Rightarrow> (int + u8 \<times> u32) \<times> 'd world" where
  "get_data_buffer_status T w =
     (let ((r, buffer), w') =
            T \<lparr>xfer_direction = SG_DXFER_FROM_DEV,
               cdb = [0x34, 0, 0, 0, 0, 0, 0, 0, 12, 0],
               payload = Some [],
               payload_length = 12\<rparr> w
      in if r \<noteq> 0 then (Inl r, w')
         else
           (let window_id = buffer ! 4;
                length_be = push_bit 16 (ucast (buffer ! 9)) OR
                            push_bit 8 (ucast (buffer ! 10)) OR
                            ucast (buffer ! 11)
            in (Inr (window_id, length_be), w')))"

text \<open>
  \<^verbatim>\<open>get_data_buffer_status\<close> of kvss905c.c: the same, but the assembled value goes
  through \<^verbatim>\<open>ntohl\<close> before it is stored.
\<close>

definition kvss905c_get_data_buffer_status ::
  "byte_order \<Rightarrow> 'd transport \<Rightarrow> 'd world \<Rightarrow> (int + u8 \<times> u32) \<times> 'd world" where
  "kvss905c_get_data_buffer_status host T w =
     (let ((r, buffer), w') =
            T \<lparr>xfer_direction = SG_DXFER_FROM_DEV,
               cdb = [0x34, 0, 0, 0, 0, 0, 0, 0, 12, 0],
               payload = Some [],
               payload_length = 12\<rparr> w
      in if r \<noteq> 0 then (Inl r, w')
         else
           (let window_id = buffer ! 4;
                length_be = push_bit 16 (ucast (buffer ! 9)) OR
                            push_bit 8 (ucast (buffer ! 10)) OR
                            ucast (buffer ! 11)
            in (Inr (window_id, ntohl host length_be), w')))"

text \<open>The macro \<^verbatim>\<open>UNSAFE_MIN(x, y)\<close>, which expands to \<^verbatim>\<open>x < y ? x : y\<close>.\<close>

definition UNSAFE_MIN :: "u32 \<Rightarrow> u32 \<Rightarrow> u32" where
  "UNSAFE_MIN x y = (if x < y then x else y)"

text \<open>
  \<^verbatim>\<open>kvs3105_read_data\<close>. The result is \<open>Inl 1\<close> for return code 1
  (outputs unwritten) and \<open>Inr (result, end_of_page)\<close> for return code 0. The image bytes
  themselves are opaque and not part of the result.
\<close>

definition kvs3105_read_data ::
  "'d transport \<Rightarrow> u8 \<Rightarrow> u8 \<Rightarrow> u32 \<Rightarrow> 'd world \<Rightarrow> (int + u32 \<times> u8) \<times> 'd world" where
  "kvs3105_read_data T page back blen w =
     (let len = UNSAFE_MIN kMaxBuffer blen;
          ((r, buffer), w') =
            kvs3105_read T KVS3105_READ_IMAGE page (if back \<noteq> 0 then 0x80 else 0) len w
      in if r \<noteq> 0 then
           (let current_error = (if requestsense w' ! 0 = 0xf0 then 1 else 0 :: u8);
                end_of_medium = drop_bit 6 (requestsense w' ! 2) AND 1;
                incorrect_length_indicator = drop_bit 5 (requestsense w' ! 2) AND 1
            in if current_error \<noteq> 0 \<and> incorrect_length_indicator \<noteq> 0 then
                 (let delta = be32_at (requestsense w') 3
                  in (Inr (len - delta, end_of_medium), w'))
               else (Inl 1, w'))
         else (Inr (len, 0), w'))"

text \<open>\<^verbatim>\<open>kvss905c_read_data\<close>: the short read is recognised by byte 2 being exactly 0x60.\<close>

definition kvss905c_read_data ::
  "'d transport \<Rightarrow> u8 \<Rightarrow> u8 \<Rightarrow> u32 \<Rightarrow> 'd world \<Rightarrow> (int + u32 \<times> u8) \<times> 'd world" where
  "kvss905c_read_data T page back blen w =
     (let len = UNSAFE_MIN kMaxBuffer blen;
          ((r, buffer), w') =
            kvss905c_read T 0 page (if back \<noteq> 0 then 0x80 else 0) len w
      in if r \<noteq> 0 then
           (if requestsense w' ! 0 = 0xf0 \<and> requestsense w' ! 2 = 0x60 then
              (let delta = be32_at (requestsense w') 3
               in (Inr (len - delta, 1), w'))
            else (Inl 1, w'))
         else (Inr (len, 0), w'))"

text \<open>
  \<^verbatim>\<open>kvs3105_picture_size\<close> and \<^verbatim>\<open>kvss905c_picture_size\<close>, called with non-\<^verbatim>\<open>NULL\<close>
  \<^verbatim>\<open>width\<close> and \<^verbatim>\<open>height\<close> as \<^verbatim>\<open>main\<close> does. The result is \<open>(width, height)\<close>.
\<close>

definition kvs3105_picture_size ::
  "'d transport \<Rightarrow> u8 \<Rightarrow> u8 \<Rightarrow> 'd world \<Rightarrow> (int + u32 \<times> u32) \<times> 'd world" where
  "kvs3105_picture_size T page back w =
     (let ((r, buffer), w') =
            kvs3105_read T KVS3105_READ_PICTURE_ELEMENT_SIZE page
              (if back \<noteq> 0 then 0x80 else 0) 16 w
      in if r \<noteq> 0 then (Inl r, w')
         else (Inr (be32_at buffer 0, be32_at buffer 4), w'))"

definition kvss905c_picture_size ::
  "'d transport \<Rightarrow> u8 \<Rightarrow> u8 \<Rightarrow> 'd world \<Rightarrow> (int + u32 \<times> u32) \<times> 'd world" where
  "kvss905c_picture_size T page back w =
     (let ((r, buffer), w') =
            kvss905c_read T 0x80 page (if back \<noteq> 0 then 0x80 else 0) 16 w
      in if r \<noteq> 0 then (Inl r, w')
         else (Inr (be32_at buffer 0, be32_at buffer 4), w'))"

section \<open>Waiting for the image buffer\<close>

text \<open>
  \<^verbatim>\<open>kvs3105_data_buffer_wait\<close>: \<^verbatim>\<open>for (;;)\<close> around \<^verbatim>\<open>get_data_buffer_status\<close>. The
  loop has no bound, so the model is a partial function: \<open>None\<close> is a call that never
  returns. The function has two parameters in the source (handle and sense buffer) and
  the same two here. The \<^verbatim>\<open>usleep(50000)\<close> between two polls changes nothing in the state.
\<close>

partial_function (option) kvs3105_data_buffer_wait ::
  "'d transport \<Rightarrow> 'd world \<Rightarrow> (int \<times> 'd world) option" where
  "kvs3105_data_buffer_wait T w =
     (case get_data_buffer_status T w of
        (Inl return_code, w') \<Rightarrow> Some (return_code, w')
      | (Inr (window_id, len), w') \<Rightarrow>
          if len \<noteq> 0 then Some (0, w') else kvs3105_data_buffer_wait T w')"

text \<open>\<^verbatim>\<open>kvss905c_data_buffer_wait\<close>: the same loop; a failed poll returns 1.\<close>

partial_function (option) kvss905c_data_buffer_wait ::
  "byte_order \<Rightarrow> 'd transport \<Rightarrow> 'd world \<Rightarrow> (int \<times> 'd world) option" where
  "kvss905c_data_buffer_wait host T w =
     (case kvss905c_get_data_buffer_status host T w of
        (Inl return_code, w') \<Rightarrow> Some (1, w')
      | (Inr (window_id, len), w') \<Rightarrow>
          if len \<noteq> 0 then Some (0, w') else kvss905c_data_buffer_wait host T w')"

section \<open>The scan session loops of main\<close>

definition KVS3105_BUFFER_SIZE :: u32 where
  "KVS3105_BUFFER_SIZE = 0x10000"

definition KVSS905C_BUFFER_SIZE :: u32 where
  "KVSS905C_BUFFER_SIZE = 0x10000"

text \<open>
  The drain loop of \<^verbatim>\<open>main\<close> (kv-s3105c/kvscanner.c lines 252-263, kv-ss905c/kvscanner.c
  lines 154-165), the same in both programs but for the name of the read function, which
  is the parameter \<open>read_data\<close> here:
  \<^verbatim>\<open>for (;;) { if (read_data(...)) return 2; write(...); done += written;
              if (end_of_page) break; }\<close>
  The result is \<open>Inl 2\<close> when \<^verbatim>\<open>main\<close> returns 2 and \<open>Inr done\<close> when the loop is left by
  \<^verbatim>\<open>break\<close>. Writing to the output file is outside the model: every chunk is taken to be
  written whole. \<open>reads\<close> records what each call of \<open>read_data\<close> returned, in order.
\<close>

partial_function (option) drain_page ::
  "('d world \<Rightarrow> (int + u32 \<times> u8) \<times> 'd world) \<Rightarrow> u32 \<Rightarrow> (u32 \<times> u8) list \<Rightarrow> 'd world
   \<Rightarrow> ((int + u32) \<times> (u32 \<times> u8) list \<times> 'd world) option" where
  "drain_page read_data done reads w =
     (case read_data w of
        (Inl e, w') \<Rightarrow> Some (Inl 2, reads, w')
      | (Inr (written, end_of_page), w') \<Rightarrow>
          if end_of_page \<noteq> 0
          then Some (Inr (done + written), reads @ [(written, end_of_page)], w')
          else drain_page read_data (done + written) (reads @ [(written, end_of_page)]) w')"

text \<open>
  The body of the inner \<^verbatim>\<open>for\<close> loop of \<^verbatim>\<open>main\<close> in kv-s3105c/kvscanner.c (lines 209-267):
  picture size, buffer wait, drain, for one side of one page. \<open>page\<close> is the loop's
  \<^verbatim>\<open>unsigned page\<close> and \<open>side\<close> its \<^verbatim>\<open>int side\<close>; the callees take both as \<^verbatim>\<open>uint8_t\<close>, so
  they are converted at each call. \<open>Inl 2\<close> is \<^verbatim>\<open>return 2\<close>. Opening the output file is
  outside the model and taken to succeed.
\<close>

definition kvs3105_scan_side ::
  "'d transport \<Rightarrow> u32 \<Rightarrow> int \<Rightarrow> 'd world \<Rightarrow> (int + 'd world) option" where
  "kvs3105_scan_side T page side w =
     (case kvs3105_picture_size T (ucast page) (of_int side) w of
        (Inl e, w1) \<Rightarrow> Some (Inl 2)
      | (Inr (width, height), w1) \<Rightarrow>
          (case kvs3105_data_buffer_wait T w1 of
             None \<Rightarrow> None
           | Some (waitstatus, w2) \<Rightarrow>
               if waitstatus \<noteq> 0 then Some (Inl 2)
               else
                 (case drain_page
                         (kvs3105_read_data T (ucast page) (of_int side) KVS3105_BUFFER_SIZE)
                         0 [] w2 of
                    None \<Rightarrow> None
                  | Some (Inl e, reads, w3) \<Rightarrow> Some (Inl 2)
                  | Some (Inr done, reads, w3) \<Rightarrow> Some (Inr w3))))"

text \<open>The same body in kv-ss905c/kvscanner.c (lines 126-170).\<close>

definition kvss905c_scan_side ::
  "byte_order \<Rightarrow> 'd transport \<Rightarrow> u32 \<Rightarrow> int \<Rightarrow> 'd world \<Rightarrow> (int + 'd world) option" where
  "kvss905c_scan_side host T page side w =
     (case kvss905c_picture_size T (ucast page) (of_int side) w of
        (Inl e, w1) \<Rightarrow> Some (Inl 2)
      | (Inr (width, height), w1) \<Rightarrow>
          (case kvss905c_data_buffer_wait host T w1 of
             None \<Rightarrow> None
           | Some (waitstatus, w2) \<Rightarrow>
               if waitstatus \<noteq> 0 then Some (Inl 2)
               else
                 (case drain_page
                         (kvss905c_read_data T (ucast page) (of_int side) KVSS905C_BUFFER_SIZE)
                         0 [] w2 of
                    None \<Rightarrow> None
                  | Some (Inl e, reads, w3) \<Rightarrow> Some (Inl 2)
                  | Some (Inr done, reads, w3) \<Rightarrow> Some (Inr w3))))"

text \<open>
  The inner loop of \<^verbatim>\<open>main\<close>, identical in both programs:
  \<^verbatim>\<open>int side = 0; for (unsigned page = 0; page < block_size;) { body;
     if (duplex) { if (side) { page++; side = 0; } else { side = 1; } } else { page++; } }\<close>
  The parameter \<open>body\<close> is the loop body above. The loop is entered with \<open>page = 0\<close> and
  \<open>side = 0\<close>.
\<close>

function scan_block ::
  "(u32 \<Rightarrow> int \<Rightarrow> 'd world \<Rightarrow> (int + 'd world) option) \<Rightarrow> int \<Rightarrow> u32 \<Rightarrow> u32 \<Rightarrow> int
   \<Rightarrow> 'd world \<Rightarrow> (int + 'd world) option" where
  "scan_block body duplex block_size page side w =
     (if page < block_size then
        (case body page side w of
           None \<Rightarrow> None
         | Some (Inl e) \<Rightarrow> Some (Inl e)
         | Some (Inr w') \<Rightarrow>
             if duplex \<noteq> 0 then
               (if side \<noteq> 0 then scan_block body duplex block_size (page + 1) 0 w'
                else scan_block body duplex block_size page 1 w')
             else scan_block body duplex block_size (page + 1) side w')
      else Some (Inr w))"
  by pat_completeness auto

termination
  apply (relation "measure (\<lambda>(body, duplex, block_size, page, side, w).
          2 * (unat block_size - unat page) - (if side \<noteq> 0 then 1 else 0))")
  apply simp
  subgoal for body duplex block_size page side w x2 w'
    using unat_add_lem [of page 1] unsigned_less [of block_size, where ?'a = nat]
    by (simp add: word_less_nat_alt)
  subgoal for body duplex block_size page side w x2 w'
    by (simp add: word_less_nat_alt)
  subgoal for body duplex block_size page side w x2 w'
    using unat_add_lem [of page 1] unsigned_less [of block_size, where ?'a = nat]
    apply (simp add: word_less_nat_alt)
    apply arith
    done
  done

text \<open>
  The order the specification gives for a block of \<open>block_size\<close> pages: front then back
  of each page in duplex mode, one side per page otherwise, and the retrievals done one
  after the other in that order, stopping at the first that fails.
\<close>

definition page_side_order :: "int \<Rightarrow> nat \<Rightarrow> (u32 \<times> int) list" where
  "page_side_order duplex k =
     (if duplex \<noteq> 0 then concat (map (\<lambda>p. [(of_nat p, 0), (of_nat p, 1)]) [0..<k])
      else map (\<lambda>p. (of_nat p, 0)) [0..<k])"

fun retrieve_in_order ::
  "(u32 \<Rightarrow> int \<Rightarrow> 'd world \<Rightarrow> (int + 'd world) option) \<Rightarrow> (u32 \<times> int) list \<Rightarrow> 'd world
   \<Rightarrow> (int + 'd world) option" where
  "retrieve_in_order body [] w = Some (Inr w)"
| "retrieve_in_order body ((page, side) # rest) w =
     (case body page side w of
        None \<Rightarrow> None
      | Some (Inl e) \<Rightarrow> Some (Inl e)
      | Some (Inr w') \<Rightarrow> retrieve_in_order body rest w')"

section \<open>Devices used to exercise the command layer\<close>

text \<open>A device that answers every command the same way.\<close>

definition stub :: "int \<Rightarrow> u8 list \<Rightarrow> u8 list \<Rightarrow> unit transport" where
  "stub r buffer sense req w = ((r, buffer), w\<lparr>requestsense := sense\<rparr>)"

definition idle :: "unit world" where
  "idle = \<lparr>requestsense = replicate 20 0, device = ()\<rparr>"

text \<open>A device that accepts every command and keeps the list of what it was sent.\<close>

definition recorder :: "request list transport" where
  "recorder req w = ((0, []), w\<lparr>device := device w @ [req]\<rparr>)"

text \<open>
  The sense data of a short read: current error (0xf0), end-of-medium and incorrect-length
  (0x60), and the residual as four big-endian bytes at offset 3.
\<close>

definition short_read_sense :: "u32 \<Rightarrow> u8 list" where
  "short_read_sense residual =
     [0xf0, 0, 0x60,
      ucast (drop_bit 24 residual), ucast (drop_bit 16 residual),
      ucast (drop_bit 8 residual), ucast residual] @ replicate 13 0"

text \<open>
  The three requests a retrieval is made of, byte by byte: READ of the picture element
  size (type 0x80, 16 bytes), GET DATA BUFFER STATUS (12 bytes) and READ of image data
  (type 0, 0x10000 bytes). Bytes 4 and 5 of a READ are the page and the side
  (0 front, 0x80 back). Lemmas \<open>picture_size_issues\<close>, \<open>status_issues\<close> and
  \<open>read_data_issues\<close> below show that these are the requests the command codec builds.
\<close>

definition picture_size_request :: "u8 \<Rightarrow> u8 \<Rightarrow> request" where
  "picture_size_request page q2 =
     \<lparr>xfer_direction = SG_DXFER_FROM_DEV,
      cdb = [0x28, 0, 0x80, 0, page, q2, 0, 0, 16, 0],
      payload = Some [],
      payload_length = 16\<rparr>"

definition buffer_status_request :: request where
  "buffer_status_request =
     \<lparr>xfer_direction = SG_DXFER_FROM_DEV,
      cdb = [0x34, 0, 0, 0, 0, 0, 0, 0, 12, 0],
      payload = Some [],
      payload_length = 12\<rparr>"

definition image_read_request :: "u8 \<Rightarrow> u8 \<Rightarrow> request" where
  "image_read_request page q2 =
     \<lparr>xfer_direction = SG_DXFER_FROM_DEV,
      cdb = [0x28, 0, 0, 0, page, q2, 1, 0, 0, 0],
      payload = Some [],
      payload_length = 65536\<rparr>"

text \<open>
  Modelled from the spec: the scanner itself, which is hardware and not code. Section 4.4
  says of READ(image): "a full chunk means more data remains, a short chunk is signaled by
  end-of-medium + incorrect-length sense whose residual field gives the exact final
  length". \<open>short_read w residual\<close> is that sense data in the caller's buffer: current error
  (0xf0), end-of-medium and incorrect-length (0x60), and the residual as four big-endian
  bytes at offset 3.
\<close>

definition short_read :: "'d world \<Rightarrow> nat \<Rightarrow> bool" where
  "short_read w residual =
     (requestsense w ! 0 = 0xf0 \<and> requestsense w ! 2 = 0x60 \<and>
      be32_at (requestsense w) 3 = of_nat residual)"

text \<open>
  Modelled from the spec: \<open>serves_page T left page q2\<close> says that the device behind \<open>T\<close>
  answers the 64 KiB image reads of one side as section 4.4 has it, \<open>left\<close> being the number
  of bytes of that side it has not handed out yet. While more than 64 KiB are left, a read
  gets a full chunk with good status. When less is left, a read fails with the short-read
  sense data, the residual being what the chunk lacks. The sentence of the spec does not
  decide the answer when exactly 64 KiB are left (the chunk is full, yet no more data
  remains), so both answers are admitted there: the short-read sense data with residual 0,
  or good status, after which nothing is left and the next read is an empty short read.
\<close>

definition serves_page :: "'d transport \<Rightarrow> ('d world \<Rightarrow> nat) \<Rightarrow> u8 \<Rightarrow> u8 \<Rightarrow> bool" where
  "serves_page T left page q2 =
     (\<forall>w. case T (image_read_request page q2) w of
        ((r, buffer), w') \<Rightarrow>
          if 65536 < left w then r = 0 \<and> left w' = left w - 65536
          else if left w < 65536 then r \<noteq> 0 \<and> short_read w' (65536 - left w)
          else (r = 0 \<and> left w' = 0) \<or> (r \<noteq> 0 \<and> short_read w' 0))"

text \<open>
  Modelled from the spec: two scanners of that kind (lemma \<open>page_device_serves_page\<close>),
  one for each answer to a read of exactly what is left: \<open>EndsPage\<close> answers it with the
  short-read sense data and residual 0, \<open>NextReadEmpty\<close> with good status. The state of
  the device is the number of bytes of the current side not yet read.
\<close>

datatype exact_fit = EndsPage | NextReadEmpty

definition page_device :: "exact_fit \<Rightarrow> nat transport" where
  "page_device fit req w =
     (let len = payload_length req; remaining = device w
      in if len < remaining \<or> (len = remaining \<and> fit = NextReadEmpty)
         then ((0, []), w\<lparr>device := remaining - len\<rparr>)
         else ((2, []),
               w\<lparr>requestsense := short_read_sense (of_nat (len - remaining)), device := 0\<rparr>))"

declare scan_block.simps [simp del]

text \<open>
  What is left of the order when the loop stands at \<open>page\<close> and \<open>side\<close>: the state of the
  loop seen as a list of retrievals still to do.
\<close>

definition remaining_order :: "int \<Rightarrow> u32 \<Rightarrow> u32 \<Rightarrow> int \<Rightarrow> (u32 \<times> int) list" where
  "remaining_order duplex block_size page side =
     (if duplex \<noteq> 0 then
        (if side \<noteq> 0 then
           (if page < block_size
            then (page, side) #
                 concat (map (\<lambda>p. [(of_nat p, 0), (of_nat p, 1)]) [unat (page + 1)..<unat block_size])
            else [])
         else concat (map (\<lambda>p. [(of_nat p, 0), (of_nat p, 1)]) [unat page..<unat block_size]))
      else map (\<lambda>p. (of_nat p, side)) [unat page..<unat block_size])"

section \<open>Observing what a session sends\<close>

text \<open>
  \<open>logged T\<close> is the transport \<open>T\<close> with a log: every request handed to it is passed on
  unchanged and appended to the list kept beside the device. \<open>issued w\<close> is that list.
\<close>

definition logged :: "'d transport \<Rightarrow> ('d \<times> request list) transport" where
  "logged T req w =
     (let ((r, buffer), w') = T req \<lparr>requestsense = requestsense w, device = fst (device w)\<rparr>
      in ((r, buffer),
          \<lparr>requestsense = requestsense w', device = (device w', snd (device w) @ [req])\<rparr>))"

definition issued :: "('d \<times> request list) world \<Rightarrow> request list" where
  "issued w = snd (device w)"

text \<open>
  The requests of one retrieval: the picture size, \<open>polls\<close> polls of the buffer status and
  \<open>reads\<close> image reads, for the page and side bytes given.
\<close>

definition retrieval :: "u8 \<Rightarrow> u8 \<Rightarrow> nat \<Rightarrow> nat \<Rightarrow> request list" where
  "retrieval page q2 polls reads =
     picture_size_request page q2 # replicate polls buffer_status_request @
     replicate reads (image_read_request page q2)"

text \<open>
  The page and side bytes of the retrievals of a block of \<open>k\<close> pages, in order. The page
  byte is the page number as a \<^verbatim>\<open>uint8_t\<close>, that is modulo 256.
\<close>

definition issued_order :: "int \<Rightarrow> nat \<Rightarrow> (u8 \<times> u8) list" where
  "issued_order duplex k =
     (if duplex \<noteq> 0 then concat (map (\<lambda>p. [(of_nat p, 0), (of_nat p, 0x80)]) [0..<k])
      else map (\<lambda>p. (of_nat p, 0)) [0..<k])"

text \<open>
  A scanner that has every side ready and hands it out in one short chunk: an image read
  fails with the short-read sense data, every other command succeeds with sixteen bytes
  of ones (a non-zero buffer length, a picture size).
\<close>

definition ready_scanner :: "unit transport" where
  "ready_scanner req w =
     (if cdb req ! 0 = 0x28 \<and> cdb req ! 2 = 0
      then ((2, []), w\<lparr>requestsense := short_read_sense 0x32\<rparr>)
      else ((0, replicate 16 1), w))"

definition quiet :: "(unit \<times> request list) world" where
  "quiet = \<lparr>requestsense = replicate 20 0, device = ((), [])\<rparr>"

section \<open>SCSI generic transport (kvss905c.c)\<close>

definition REQUEST_SENSE_SIZE :: nat where
  "REQUEST_SENSE_SIZE = 20"

text \<open>
  \<^verbatim>\<open>scsi_transient_error\<close>: byte 12 of the sense data (the additional sense code) is 0x28,
  0x29 or 0x04.
\<close>

definition scsi_transient_error :: "u8 list \<Rightarrow> int" where
  "scsi_transient_error sense =
     (let asc = sense ! 12
      in if asc = 0x28 \<or> asc = 0x29 \<or> asc = 0x04 then 1 else 0)"

text \<open>
  What one \<^verbatim>\<open>ioctl(fd, SG_IO, &hdr)\<close> reports: its return value, \<^verbatim>\<open>hdr.masked_status\<close>, the
  sense bytes the kernel wrote to \<^verbatim>\<open>hdr.sbp\<close> (at most \<^verbatim>\<open>mx_sb_len\<close> are kept) and the contents
  of the data buffer afterwards.
\<close>

record sg_reply =
  ioctl_result :: int
  masked_status :: u8
  sense_bytes :: "u8 list"
  data_bytes :: "u8 list"

text \<open>
  The device file: the answer it will give to its n-th ioctl, the number of ioctls so far,
  and the trace of what the driver did to it (ioctls and sleeps, in order).
\<close>

datatype sg_event = SG_IO request | Sleep nat

record sg_device =
  sg_replies :: "nat \<Rightarrow> sg_reply"
  sg_calls :: nat
  sg_trace :: "sg_event list"

definition sg_ioctl ::
  "request \<Rightarrow> u8 list \<Rightarrow> sg_device \<Rightarrow> (int \<times> u8 \<times> u8 list \<times> u8 list) \<times> sg_device" where
  "sg_ioctl req sense dev =
     (let reply = sg_replies dev (sg_calls dev);
          written = take REQUEST_SENSE_SIZE (sense_bytes reply)
      in ((ioctl_result reply, masked_status reply, data_bytes reply,
           written @ drop (length written) sense),
          dev\<lparr>sg_calls := sg_calls dev + 1, sg_trace := sg_trace dev @ [SG_IO req]\<rparr>))"

definition sleep :: "nat \<Rightarrow> sg_device \<Rightarrow> sg_device" where
  "sleep seconds dev = dev\<lparr>sg_trace := sg_trace dev @ [Sleep seconds]\<rparr>"

text \<open>
  \<^verbatim>\<open>scsi_command\<close>: the loop \<^verbatim>\<open>for (int retries = 0; retries < 5; ++retries)\<close>, from a given
  value of \<open>retries\<close>. The result is the return code, the data buffer and the sense
  buffer. \<open>buffer\<close> is the data buffer as the previous attempt left it.
\<close>

function scsi_command_loop ::
  "nat \<Rightarrow> request \<Rightarrow> u8 list \<Rightarrow> u8 list \<Rightarrow> sg_device
   \<Rightarrow> (int \<times> u8 list \<times> u8 list) \<times> sg_device" where
  "scsi_command_loop retries req buffer sense dev =
     (if retries < 5 then
        (case sg_ioctl req sense dev of
           ((io, status, buffer', sense'), dev') \<Rightarrow>
             if io \<noteq> 0 then ((1, buffer', sense'), dev')
             else if status \<noteq> 0 then
               (if scsi_transient_error sense' \<noteq> 0
                then scsi_command_loop (retries + 1) req buffer' sense' (sleep 3 dev')
                else ((2, buffer', sense'), dev'))
             else ((0, buffer', sense'), dev'))
      else ((2, buffer, sense), dev))"
  by pat_completeness auto

termination
  by (relation "measure (\<lambda>(retries, req, buffer, sense, dev). 5 - retries)") auto

declare scsi_command_loop.simps [simp del]

definition scsi_command ::
  "request \<Rightarrow> u8 list \<Rightarrow> sg_device \<Rightarrow> (int \<times> u8 list \<times> u8 list) \<times> sg_device" where
  "scsi_command req sense dev =
     scsi_command_loop 0 req (case payload req of None \<Rightarrow> [] | Some bytes \<Rightarrow> bytes)
       sense dev"

text \<open>\<^verbatim>\<open>scsi_command\<close> as the transport of the kvss905c command layer.\<close>

definition scsi_transport :: "sg_device transport" where
  "scsi_transport req w =
     (case scsi_command req (requestsense w) (device w) of
        ((r, buffer, sense), dev) \<Rightarrow> ((r, buffer), \<lparr>requestsense = sense, device = dev\<rparr>))"










section \<open>USB bulk transport (kvs3105usb.c)\<close>

definition COMMAND_BLOCK :: u16 where "COMMAND_BLOCK = 1"
definition DATA_BLOCK :: u16 where "DATA_BLOCK = 2"
definition COMMAND_CODE :: u16 where "COMMAND_CODE = 0x9000"
definition DATA_CODE :: u16 where "DATA_CODE = 0xb000"
definition CHECK_CONDITION :: int where "CHECK_CONDITION = 2"
definition CMD_NONE :: u8 where "CMD_NONE = 0"
definition CMD_IN :: u8 where "CMD_IN = 0x81"
definition CMD_OUT :: u8 where "CMD_OUT = 0x02"
definition RESPONSE_SIZE :: nat where "RESPONSE_SIZE = 0x12"
definition MAX_CMD_SIZE :: nat where "MAX_CMD_SIZE = 12"
definition REQUEST_SENSE :: u8 where "REQUEST_SENSE = 0x03"
definition KVS3105_REQUEST_SENSE_SIZE :: nat where "KVS3105_REQUEST_SENSE_SIZE = 20"

text \<open>
  What one \<^verbatim>\<open>libusb_bulk_transfer\<close> reports: its return value and, for a transfer from
  the device, the bytes that arrived (at most the requested length is kept).
\<close>

record bulk_reply =
  ret :: int
  received :: "u8 list"

text \<open>A transfer as submitted: endpoint, bytes (for a transfer to the device), length.\<close>

record transfer =
  xfer_endpoint :: u8
  xfer_bytes :: "u8 list"
  xfer_size :: nat

text \<open>
  The bus: the answer it will give to its n-th transfer, the transfers submitted so far,
  and the contents of memory the driver has not initialised (\<^verbatim>\<open>alloca\<close> and local arrays).
\<close>

record usb_bus =
  bulk_replies :: "nat \<Rightarrow> bulk_reply"
  transfers :: "transfer list"
  indeterminate :: "nat \<Rightarrow> u8"

definition fresh :: "nat \<Rightarrow> usb_bus \<Rightarrow> u8 list" where
  "fresh n bus = map (indeterminate bus) [0..<n]"

text \<open>\<^verbatim>\<open>memcpy(dst + off, src, n)\<close> with \<open>n = length src\<close>; \<^verbatim>\<open>memset\<close> likewise.\<close>

definition overwrite :: "u8 list \<Rightarrow> nat \<Rightarrow> u8 list \<Rightarrow> u8 list" where
  "overwrite dst off src = take off dst @ src @ drop (off + length src) dst"

text \<open>
  \<^verbatim>\<open>libusb_bulk_transfer(handle, endpoint, data, length, &transferred, timeout)\<close>. The
  result is the return value, the buffer afterwards and \<^verbatim>\<open>transferred\<close>. Received bytes
  replace the beginning of the buffer; the rest of it keeps what it held.
\<close>

definition libusb_bulk_transfer ::
  "u8 \<Rightarrow> u8 list \<Rightarrow> nat \<Rightarrow> usb_bus \<Rightarrow> (int \<times> u8 list \<times> nat) \<times> usb_bus" where
  "libusb_bulk_transfer endpoint buf len bus =
     (let reply = bulk_replies bus (length (transfers bus));
          got = (if endpoint = CMD_IN then take len (received reply) else []);
          transferred = (if endpoint = CMD_IN then length got
                         else if ret reply = 0 then len else 0)
      in ((ret reply, got @ drop (length got) buf, transferred),
          bus\<lparr>transfers := transfers bus @
                 [\<lparr>xfer_endpoint = endpoint,
                   xfer_bytes = (if endpoint = CMD_IN then [] else take len buf),
                   xfer_size = len\<rparr>]\<rparr>))"

text \<open>\<^verbatim>\<open>struct cmd\<close>. \<open>data\<close> is the memory the pointer refers to, \<open>None\<close> for \<^verbatim>\<open>NULL\<close>.\<close>

record cmd =
  cmd :: "u8 list"
  cmd_size :: nat
  data :: "u8 list option"
  data_size :: nat
  dir :: u8

text \<open>
  The first eight bytes of \<^verbatim>\<open>struct bulk_header\<close> (packed): \<^verbatim>\<open>htonl(length)\<close>,
  \<^verbatim>\<open>htons(type)\<close>, \<^verbatim>\<open>htons(code)\<close>. The transaction id after them stays zero from the
  \<^verbatim>\<open>memset\<close>.
\<close>

definition bulk_header :: "u32 \<Rightarrow> u16 \<Rightarrow> u16 \<Rightarrow> u8 list" where
  "bulk_header len type code =
     [ucast (drop_bit 24 len), ucast (drop_bit 16 len), ucast (drop_bit 8 len), ucast len,
      ucast (drop_bit 8 type), ucast type, ucast (drop_bit 8 code), ucast code]"

text \<open>
  The end of \<^verbatim>\<open>usb_send_command\<close>, from "Get the SCSI status packet": a transfer from the
  device into the local array \<^verbatim>\<open>resp\<close> of 16 bytes, whose last four bytes are the status.
\<close>

definition usb_get_status ::
  "cmd \<Rightarrow> u8 list \<Rightarrow> usb_bus \<Rightarrow> (int \<times> cmd \<times> int \<times> u8 list) \<times> usb_bus" where
  "usb_get_status c h bus =
     (let resp = fresh 16 bus;
          ((ret1, resp, transferred), bus) = libusb_bulk_transfer CMD_IN resp 16 bus
      in if ret1 \<noteq> 0 then ((- 1, c, CHECK_CONDITION, h), bus)
         else ((0, c, sint (be32_at resp 12), h), bus))"

text \<open>
  \<^verbatim>\<open>usb_send_command(usbhandle, c, r, buf, timeout)\<close>. The result is the return value, the
  struct \<open>c\<close>, \<^verbatim>\<open>r->status\<close> and the buffer. The timeout has no effect on the model.
\<close>

definition usb_send_command ::
  "cmd \<Rightarrow> int \<Rightarrow> u8 list \<Rightarrow> usb_bus \<Rightarrow> (int \<times> cmd \<times> int \<times> u8 list) \<times> usb_bus" where
  "usb_send_command c status buf bus =
     (let sz = 12 + MAX_CMD_SIZE;
          h = overwrite buf 0 (replicate sz 0);
          h = overwrite h 0 (bulk_header (of_nat sz) COMMAND_BLOCK COMMAND_CODE);
          h = overwrite h 12 (take (cmd_size c) (cmd c));
          ((ret1, h, transferred), bus) = libusb_bulk_transfer CMD_OUT h sz bus
      in if ret1 \<noteq> 0 then ((- 3, c, status, h), bus)
         else if dir c = CMD_IN then
           (let sz = 12 + data_size c;
                ((ret1, h, transferred), bus) = libusb_bulk_transfer CMD_IN h sz bus;
                c = c\<lparr>data := Some (drop 12 h)\<rparr>
            in if ret1 \<noteq> 0 \<or> transferred < 12
               then ((- 2, c\<lparr>data_size := 0\<rparr>, CHECK_CONDITION, h), bus)
               else usb_get_status (c\<lparr>data_size := sz - 12\<rparr>) h bus)
         else if dir c = CMD_OUT then
           (let sz = 12 + data_size c;
                h = overwrite h 0 (replicate 12 0);
                h = overwrite h 0 (bulk_header (of_nat (12 + data_size c)) DATA_BLOCK DATA_CODE);
                h = overwrite h 12 (take (data_size c) (case data c of None \<Rightarrow> [] | Some d \<Rightarrow> d));
                ((ret1, h, transferred), bus) = libusb_bulk_transfer CMD_OUT h sz bus
            in if ret1 \<noteq> 0 then ((- 2, c, status, h), bus)
               else usb_get_status c h bus)
         else usb_get_status c h bus)"

text \<open>The struct \<^verbatim>\<open>c\<close> that \<^verbatim>\<open>send_command\<close> initialises from its arguments.\<close>

definition command_struct :: "dxfer \<Rightarrow> u8 list \<Rightarrow> nat \<Rightarrow> u8 list option \<Rightarrow> nat \<Rightarrow> cmd" where
  "command_struct direction command command_length databuf data_length =
     \<lparr>cmd = command, cmd_size = command_length, data = databuf, data_size = data_length,
      dir = (if databuf = None \<or> data_length = 0 then CMD_NONE
             else if direction = SG_DXFER_TO_DEV then CMD_OUT else CMD_IN)\<rparr>"

text \<open>The struct \<^verbatim>\<open>c2\<close> of the follow-up REQUEST SENSE.\<close>

definition request_sense_struct :: cmd where
  "request_sense_struct =
     \<lparr>cmd = [REQUEST_SENSE, 0, 0, 0, of_nat RESPONSE_SIZE, 0], cmd_size = 6, data = None,
      data_size = RESPONSE_SIZE, dir = CMD_IN\<rparr>"

text \<open>
  \<^verbatim>\<open>send_command\<close>. \<open>sense\<close> is the caller's \<^verbatim>\<open>requestsense\<close> buffer. The result is the return
  value, the caller's data buffer and the sense buffer.
\<close>

definition send_command ::
  "dxfer \<Rightarrow> u8 list \<Rightarrow> nat \<Rightarrow> u8 list option \<Rightarrow> nat \<Rightarrow> u8 list \<Rightarrow> usb_bus
   \<Rightarrow> (int \<times> u8 list option \<times> u8 list) \<times> usb_bus" where
  "send_command direction command command_length databuf data_length sense bus =
     (let bb = fresh (12 + (if data_length > MAX_CMD_SIZE then data_length else MAX_CMD_SIZE)) bus;
          c = command_struct direction command command_length databuf data_length;
          sense = overwrite sense 0 (replicate RESPONSE_SIZE 0);
          ((st, c, status, bb), bus) = usb_send_command c 0 bb bus
      in if st = - 2 then ((3, databuf, sense), bus)
         else if st < - 1 then ((1, databuf, sense), bus)
         else
           (let databuf =
                  (if dir c = CMD_IN
                   then map_option
                          (\<lambda>d. overwrite d 0
                                 (take (data_size c) (case data c of None \<Rightarrow> [] | Some x \<Rightarrow> x)))
                          databuf
                   else databuf)
            in if status \<noteq> 0 then
                 (let b = fresh (12 + RESPONSE_SIZE) bus;
                      ((st, c2, status, b), bus) =
                        usb_send_command request_sense_struct status b bus
                  in if st < - 1 \<or> data_size c2 = 0 then ((1, databuf, sense), bus)
                     else ((2, databuf, overwrite sense 0 (take RESPONSE_SIZE (drop 12 b))),
                           bus))
               else ((0, databuf, sense), bus)))"

text \<open>\<^verbatim>\<open>send_command\<close> as the transport of the kvs3105 command layer.\<close>

definition usb_transport :: "usb_bus transport" where
  "usb_transport req w =
     (case send_command (xfer_direction req) (cdb req) (length (cdb req)) (payload req)
             (payload_length req) (requestsense w) (device w) of
        ((r, buffer, sense), bus) \<Rightarrow>
          ((r, case buffer of None \<Rightarrow> [] | Some bytes \<Rightarrow> bytes),
           \<lparr>requestsense = sense, device = bus\<rparr>))"

text \<open>
  A bus that answers its transfers from a list, and with an I/O error once the list is
  exhausted; uninitialised memory reads as 0xCC.
\<close>

definition bus_script :: "bulk_reply list \<Rightarrow> usb_bus" where
  "bus_script replies =
     \<lparr>bulk_replies = (\<lambda>n. if n < length replies then replies ! n
                          else \<lparr>ret = - 1, received = []\<rparr>),
      transfers = [],
      indeterminate = (\<lambda>i. 0xCC)\<rparr>"

text \<open>The command block of the follow-up REQUEST SENSE as it goes over the wire.\<close>

definition request_sense_block :: transfer where
  "request_sense_block =
     \<lparr>xfer_endpoint = CMD_OUT,
      xfer_bytes = [0, 0, 0, 24, 0, 1, 0x90, 0, 0, 0, 0, 0,
                    0x03, 0, 0, 0, 0x12, 0, 0, 0, 0, 0, 0, 0],
      xfer_size = 24\<rparr>"

text \<open>
  Answers of the bus: a transfer that succeeds and brings nothing, a status packet (header
  and big-endian status word), a timeout (\<^verbatim>\<open>LIBUSB_ERROR_TIMEOUT\<close>), and a data packet with
  18 bytes of sense data (illegal request, invalid field in CDB).
\<close>

definition usb_ok :: bulk_reply where
  "usb_ok = \<lparr>ret = 0, received = []\<rparr>"

definition usb_status :: "u8 \<Rightarrow> bulk_reply" where
  "usb_status s = \<lparr>ret = 0, received = replicate 12 0 @ [0, 0, 0, s]\<rparr>"

definition usb_timeout :: bulk_reply where
  "usb_timeout = \<lparr>ret = - 7, received = []\<rparr>"

definition usb_sense_data :: bulk_reply where
  "usb_sense_data =
     \<lparr>ret = 0,
      received = replicate 12 0 @
                 [0xf0, 0, 0x05, 0, 0, 0, 0, 10, 0, 0, 0, 0, 0x24, 0, 0, 0, 0, 0]\<rparr>"

section \<open>Window serialiser\<close>

text \<open>
  \<^verbatim>\<open>struct kvs3105_window\<close> (kvs3105usb.h) and \<^verbatim>\<open>struct kvss905c_window\<close> (kvss905c.h) have
  the same fields of the same types in the same order. The field \<^verbatim>\<open>length\<close> is \<open>length_w\<close>
  here.
\<close>

record kvs3105_window =
  xres :: u16
  yres :: u16
  x1 :: u32
  y1 :: u32
  width :: u32
  length_w :: u32
  brighness :: u8
  threshold :: u8
  contrast :: u8
  composition :: u8
  bpp :: u8
  halftone_pattern :: u16
  reverse_image :: u8
  bit_ordering :: u16
  compression_type :: u8
  compression_argument :: u8
  flatbed :: u8
  stop_on_skew :: u8
  disable_buffering :: u8
  continue_on_double_feed :: u8
  mirror_image :: u8
  emphasis :: u8
  gamma_correction :: u8
  multi_colour_drop_out :: u8
  lamp :: u8
  double_feed_sensitivity :: u8
  remove_moire :: u8
  subsample :: u8
  colour_match :: u8
  document_size :: u8
  document_width :: u32
  document_length :: u32
  ahead_disable :: u8
  deskew :: u8
  double_feed_detector :: u8
  full_size_scan :: u8
  feed_slow :: u8
  remove_shadow :: u8
  number_of_pages_to_scan :: u8
  threshold_mode :: u8
  separation_mode :: u8
  standard_white_level :: u8
  blackwhite_noise_reduction :: u8
  noise_reduction :: u8
  manual_feed_mode :: u8
  additional_space_top :: u8
  additional_space_bottom :: u8
  detect_separation_sheet :: u8
  halt_at_separation_sheet :: u8
  detect_control_sheet :: u8
  stop_mode :: u8
  red_chroma :: u8
  blue_chroma :: u8

type_synonym kvss905c_window = kvs3105_window

text \<open>
  The serialiser writes through \<^verbatim>\<open>output[j++]\<close>; its state is the output buffer and \<open>j\<close>.
  A write beyond the end of the buffer would be a buffer overflow in C and leaves the
  list unchanged here; \<^verbatim>\<open>set_windows\<close> passes a buffer of 64 bytes.

  The macros: \<^verbatim>\<open>U8I(x)\<close> stores one byte (\<^verbatim>\<open>U8\<close> is the same for a field of the window);
  \<^verbatim>\<open>U16\<close> and \<^verbatim>\<open>U32\<close> store \<^verbatim>\<open>htons\<close>/\<^verbatim>\<open>htonl\<close> of the field with \<^verbatim>\<open>memcpy\<close>, that is, most
  significant byte first on any host; \<open>SKIP n\<close> is \<^verbatim>\<open>j += n\<close>.
\<close>

definition U8I :: "u8 \<Rightarrow> u8 list \<times> nat \<Rightarrow> u8 list \<times> nat" where
  "U8I x s = (case s of (output, j) \<Rightarrow> (output[j := x], j + 1))"

definition U8 :: "u8 \<Rightarrow> u8 list \<times> nat \<Rightarrow> u8 list \<times> nat" where
  "U8 x s = (case s of (output, j) \<Rightarrow> (output[j := x], j + 1))"

definition U16 :: "u16 \<Rightarrow> u8 list \<times> nat \<Rightarrow> u8 list \<times> nat" where
  "U16 x s =
     (case s of (output, j) \<Rightarrow>
        (output[j := ucast (drop_bit 8 x), j + 1 := ucast x], j + 2))"

definition U32 :: "u32 \<Rightarrow> u8 list \<times> nat \<Rightarrow> u8 list \<times> nat" where
  "U32 x s =
     (case s of (output, j) \<Rightarrow>
        (output[j := ucast (drop_bit 24 x), j + 1 := ucast (drop_bit 16 x),
                j + 2 := ucast (drop_bit 8 x), j + 3 := ucast x], j + 4))"

definition SKIP :: "nat \<Rightarrow> u8 list \<times> nat \<Rightarrow> u8 list \<times> nat" where
  "SKIP n s = (case s of (output, j) \<Rightarrow> (output, j + n))"

text \<open>
  In a bit-field byte such as \<^verbatim>\<open>window->flatbed << 7 | window->stop_on_skew << 4 | ...\<close>
  each \<^verbatim>\<open>uint8_t\<close> field is promoted to \<^verbatim>\<open>int\<close> (\<open>promote\<close>; 32 bits, and no shift
  here reaches the sign bit), shifted and or-ed there, and the result is truncated to a
  byte by the store (\<open>ucast\<close>).
\<close>

definition promote :: "u8 \<Rightarrow> u32" where
  "promote x = ucast x"

text \<open>
  \<^verbatim>\<open>kvs3105_window_serialise\<close>: the statements of the function in order. The result is the
  buffer and the returned \<open>j\<close>.
\<close>

definition kvs3105_window_serialise :: "u8 list \<Rightarrow> kvs3105_window \<Rightarrow> u8 list \<times> nat" where
  "kvs3105_window_serialise output window =
     fold (\<lambda>statement s. statement s)
       [U8I 0,
        U8I 0,
        U16 (xres window),
        U16 (yres window),
        U32 (x1 window),
        U32 (y1 window),
        U32 (width window),
        U32 (length_w window),
        U8 (brighness window),
        U8 (threshold window),
        U8 (contrast window),
        U8 (composition window),
        U8 (bpp window),
        U16 (halftone_pattern window),
        U8I (if reverse_image window \<noteq> 0 then 0x80 else 0),
        U16 (bit_ordering window),
        U8 (compression_type window),
        U8 (compression_argument window),
        SKIP 6,
        U8I 0,
        U8I (ucast (push_bit 7 (promote (flatbed window)) OR
                     push_bit 4 (promote (stop_on_skew window)) OR
                     push_bit 3 (promote (disable_buffering window)) OR
                     push_bit 0 (promote (continue_on_double_feed window)))),
        U8 (mirror_image window),
        U8 (emphasis window),
        U8 (gamma_correction window),
        U8I (ucast (push_bit 7 (promote (multi_colour_drop_out window)) OR
                     push_bit 4 (promote (lamp window)) OR
                     push_bit 0 (promote (double_feed_sensitivity window)))),
        U8I (ucast (push_bit 6 (promote (remove_moire window)) OR
                     push_bit 4 (promote (subsample window)) OR
                     push_bit 0 (promote (colour_match window)))),
        U8 (document_size window),
        U32 (document_width window),
        U32 (document_length window),
        U8I (ucast (push_bit 7 (promote (ahead_disable window)) OR
                     push_bit 5 (promote (deskew window)) OR
                     push_bit 4 (promote (double_feed_detector window)) OR
                     push_bit 2 (promote (full_size_scan window)) OR
                     push_bit 1 (promote (feed_slow window)) OR
                     push_bit 0 (promote (remove_shadow window)))),
        U8 (number_of_pages_to_scan window),
        U8 (threshold_mode window),
        U8 (separation_mode window),
        U8 (standard_white_level window),
        U8I (ucast (push_bit 7 (promote (blackwhite_noise_reduction window)) OR
                     push_bit 0 (promote (noise_reduction window)))),
        U8I (ucast (push_bit 6 (promote (manual_feed_mode window)) OR
                     push_bit 5 (promote (additional_space_top window)) OR
                     push_bit 4 (promote (additional_space_bottom window)) OR
                     push_bit 3 (promote (detect_separation_sheet window)) OR
                     push_bit 2 (promote (halt_at_separation_sheet window)) OR
                     push_bit 1 (promote (detect_control_sheet window)))),
        U8 (stop_mode window)]
       (output, 0)"

text \<open>\<^verbatim>\<open>kvss905c_window_serialise\<close>: the same statements.\<close>

definition kvss905c_window_serialise :: "u8 list \<Rightarrow> kvss905c_window \<Rightarrow> u8 list \<times> nat" where
  "kvss905c_window_serialise output window =
     fold (\<lambda>statement s. statement s)
       [U8I 0,
        U8I 0,
        U16 (xres window),
        U16 (yres window),
        U32 (x1 window),
        U32 (y1 window),
        U32 (width window),
        U32 (length_w window),
        U8 (brighness window),
        U8 (threshold window),
        U8 (contrast window),
        U8 (composition window),
        U8 (bpp window),
        U16 (halftone_pattern window),
        U8I (if reverse_image window \<noteq> 0 then 0x80 else 0),
        U16 (bit_ordering window),
        U8 (compression_type window),
        U8 (compression_argument window),
        SKIP 6,
        U8I 0,
        U8I (ucast (push_bit 7 (promote (flatbed window)) OR
                     push_bit 4 (promote (stop_on_skew window)) OR
                     push_bit 3 (promote (disable_buffering window)) OR
                     push_bit 0 (promote (continue_on_double_feed window)))),
        U8 (mirror_image window),
        U8 (emphasis window),
        U8 (gamma_correction window),
        U8I (ucast (push_bit 7 (promote (multi_colour_drop_out window)) OR
                     push_bit 4 (promote (lamp window)) OR
                     push_bit 0 (promote (double_feed_sensitivity window)))),
        U8I (ucast (push_bit 6 (promote (remove_moire window)) OR
                     push_bit 4 (promote (subsample window)) OR
                     push_bit 0 (promote (colour_match window)))),
        U8 (document_size window),
        U32 (document_width window),
        U32 (document_length window),
        U8I (ucast (push_bit 7 (promote (ahead_disable window)) OR
                     push_bit 5 (promote (deskew window)) OR
                     push_bit 4 (promote (double_feed_detector window)) OR
                     push_bit 2 (promote (full_size_scan window)) OR
                     push_bit 1 (promote (feed_slow window)) OR
                     push_bit 0 (promote (remove_shadow window)))),
        U8 (number_of_pages_to_scan window),
        U8 (threshold_mode window),
        U8 (separation_mode window),
        U8 (standard_white_level window),
        U8I (ucast (push_bit 7 (promote (blackwhite_noise_reduction window)) OR
                     push_bit 0 (promote (noise_reduction window)))),
        U8I (ucast (push_bit 6 (promote (manual_feed_mode window)) OR
                     push_bit 5 (promote (additional_space_top window)) OR
                     push_bit 4 (promote (additional_space_bottom window)) OR
                     push_bit 3 (promote (detect_separation_sheet window)) OR
                     push_bit 2 (promote (halt_at_separation_sheet window)) OR
                     push_bit 1 (promote (detect_control_sheet window)))),
        U8 (stop_mode window)]
       (output, 0)"

definition WINDOW_SIZE :: nat where
  "WINDOW_SIZE = 64"

text \<open>\<^verbatim>\<open>abort()\<close> ends the process; it is the only fault of the command layer.\<close>

datatype fault = Abort

text \<open>
  \<^verbatim>\<open>kvs3105_set_windows\<close>. The serialiser is handed \<^verbatim>\<open>windowbytes + 8\<close>, the last 64 bytes
  of the zeroed 72-byte buffer. The result is \<open>Inl Abort\<close> or the return code.
\<close>

definition kvs3105_set_windows ::
  "'d transport \<Rightarrow> kvs3105_window \<Rightarrow> u8 \<Rightarrow> 'd world \<Rightarrow> fault + int \<times> 'd world" where
  "kvs3105_set_windows T window duplex w =
     (let windowbytes = replicate (6 + 2 + WINDOW_SIZE) 0;
          (body, bytes_written) = kvs3105_window_serialise (drop 8 windowbytes) window;
          windowbytes = take 8 windowbytes @ body
      in if bytes_written \<noteq> WINDOW_SIZE then Inl Abort
         else
           (let len = (of_nat WINDOW_SIZE :: u16);
                windowbytes = windowbytes[6 := ucast (drop_bit 8 len), 7 := ucast len];
                transfer_length = (of_nat (6 + 2 + WINDOW_SIZE) :: u32);
                command = [0x24, 0, 0, 0, 0, 0, ucast (drop_bit 16 transfer_length),
                           ucast (drop_bit 8 transfer_length), ucast transfer_length, 0];
                ((r, buffer), w') =
                  T \<lparr>xfer_direction = SG_DXFER_TO_DEV, cdb = command,
                     payload = Some windowbytes,
                     payload_length = unat transfer_length\<rparr> w
            in if r \<noteq> 0 then Inr (r, w')
               else if duplex \<noteq> 0 then
                 (let windowbytes = windowbytes[8 := 0x80];
                      ((r, buffer), w'') =
                        T \<lparr>xfer_direction = SG_DXFER_TO_DEV, cdb = command,
                           payload = Some windowbytes,
                           payload_length = unat transfer_length\<rparr> w'
                  in Inr (r, w''))
               else Inr (0, w')))"

text \<open>\<^verbatim>\<open>kvss905c_set_windows\<close>: the same code over \<^verbatim>\<open>scsi_command\<close>.\<close>

definition kvss905c_set_windows ::
  "'d transport \<Rightarrow> kvss905c_window \<Rightarrow> u8 \<Rightarrow> 'd world \<Rightarrow> fault + int \<times> 'd world" where
  "kvss905c_set_windows T window duplex w =
     (let windowbytes = replicate (6 + 2 + WINDOW_SIZE) 0;
          (body, bytes_written) = kvss905c_window_serialise (drop 8 windowbytes) window;
          windowbytes = take 8 windowbytes @ body
      in if bytes_written \<noteq> WINDOW_SIZE then Inl Abort
         else
           (let len = (of_nat WINDOW_SIZE :: u16);
                windowbytes = windowbytes[6 := ucast (drop_bit 8 len), 7 := ucast len];
                transfer_length = (of_nat (6 + 2 + WINDOW_SIZE) :: u32);
                command = [0x24, 0, 0, 0, 0, 0, ucast (drop_bit 16 transfer_length),
                           ucast (drop_bit 8 transfer_length), ucast transfer_length, 0];
                ((r, buffer), w') =
                  T \<lparr>xfer_direction = SG_DXFER_TO_DEV, cdb = command,
                     payload = Some windowbytes,
                     payload_length = unat transfer_length\<rparr> w
            in if r \<noteq> 0 then Inr (r, w')
               else if duplex \<noteq> 0 then
                 (let windowbytes = windowbytes[8 := 0x80];
                      ((r, buffer), w'') =
                        T \<lparr>xfer_direction = SG_DXFER_TO_DEV, cdb = command,
                           payload = Some windowbytes,
                           payload_length = unat transfer_length\<rparr> w'
                  in Inr (r, w''))
               else Inr (0, w')))"

text \<open>\<^verbatim>\<open>kvs3105_window_init\<close>: all fields zero but those set explicitly.\<close>

definition kvs3105_window_init :: kvs3105_window where
  "kvs3105_window_init =
     \<lparr>xres = 300, yres = 300, x1 = 0, y1 = 0, width = 10200, length_w = 13200,
      brighness = 0, threshold = 0, contrast = 0, composition = 5, bpp = 24,
      halftone_pattern = 0, reverse_image = 0, bit_ordering = 0,
      compression_type = 0x81, compression_argument = 85,
      flatbed = 0, stop_on_skew = 0, disable_buffering = 0, continue_on_double_feed = 0,
      mirror_image = 0, emphasis = 0xf0, gamma_correction = 0,
      multi_colour_drop_out = 0, lamp = 0, double_feed_sensitivity = 0,
      remove_moire = 0, subsample = 3, colour_match = 0, document_size = 7,
      document_width = 10200, document_length = 13200,
      ahead_disable = 0, deskew = 0, double_feed_detector = 1, full_size_scan = 0,
      feed_slow = 0, remove_shadow = 0, number_of_pages_to_scan = 0xff,
      threshold_mode = 0, separation_mode = 0, standard_white_level = 0,
      blackwhite_noise_reduction = 0, noise_reduction = 0, manual_feed_mode = 0,
      additional_space_top = 0, additional_space_bottom = 0,
      detect_separation_sheet = 0, halt_at_separation_sheet = 0,
      detect_control_sheet = 0, stop_mode = 0, red_chroma = 0, blue_chroma = 0\<rparr>"

text \<open>
  The two flag bytes as the window reference documents them, and the data buffers that a
  call of \<^verbatim>\<open>set_windows\<close> handed to the recording device.
\<close>

definition flag_byte_41 :: "kvs3105_window \<Rightarrow> u8" where
  "flag_byte_41 window =
     push_bit 7 (flatbed window) OR push_bit 4 (stop_on_skew window) OR
     push_bit 3 (disable_buffering window) OR continue_on_double_feed window"

definition flag_byte_56 :: "kvs3105_window \<Rightarrow> u8" where
  "flag_byte_56 window =
     push_bit 7 (ahead_disable window) OR push_bit 5 (deskew window) OR
     push_bit 4 (double_feed_detector window) OR push_bit 2 (full_size_scan window) OR
     push_bit 1 (feed_slow window) OR remove_shadow window"

definition sent_windows :: "fault + int \<times> request list world \<Rightarrow> u8 list list" where
  "sent_windows res =
     (case res of Inl f \<Rightarrow> [] | Inr (r, w) \<Rightarrow> map (\<lambda>req. the (payload req)) (device w))"

section \<open>Byte order\<close>

lemma be32_bytes:
  "be32 (ucast (drop_bit 24 x)) (ucast (drop_bit 16 x)) (ucast (drop_bit 8 x)) (ucast x) = x"
  unfolding be32_def
  apply (rule bit_word_eqI)
  apply (simp add: bit_or_iff bit_push_bit_iff bit_ucast_iff bit_drop_bit_eq cong: conj_cong)
  apply (auto)
  done

lemma bit8: "bit (a :: 8 word) n \<Longrightarrow> n < 8"
  by (drule bit_imp_le_length) simp

lemma be32_byte0: "ucast (be32 a b c d) = d"
  unfolding be32_def
  apply (rule bit_word_eqI)
  apply (simp add: bit_or_iff bit_push_bit_iff bit_ucast_iff bit_drop_bit_eq)
  done

lemma be32_byte1: "ucast (drop_bit 8 (be32 a b c d)) = c"
  unfolding be32_def
  apply (rule bit_word_eqI)
  apply (simp add: bit_or_iff bit_push_bit_iff bit_ucast_iff bit_drop_bit_eq)
  apply (auto dest: bit8)
  done

lemma be32_byte2: "ucast (drop_bit 16 (be32 a b c d)) = b"
  unfolding be32_def
  apply (rule bit_word_eqI)
  apply (simp add: bit_or_iff bit_push_bit_iff bit_ucast_iff bit_drop_bit_eq)
  apply (auto dest: bit8)
  done

lemma be32_byte3: "ucast (drop_bit 24 (be32 a b c d)) = a"
  unfolding be32_def
  apply (rule bit_word_eqI)
  apply (simp add: bit_or_iff bit_push_bit_iff bit_ucast_iff bit_drop_bit_eq)
  apply (auto dest: bit8)
  done

lemma ntohl_load_u32: "ntohl host (load_u32 host p off) = be32_at p off"
  by (cases host)
     (simp_all add: ntohl_def load_u32_def be32_at_def be32_byte0 be32_byte1 be32_byte2 be32_byte3)


section \<open>Decoding responses and sense data\<close>

lemma flag_bit: "(drop_bit n (x :: u8) AND 1 \<noteq> 0) = bit x n"
  by (simp add: bit_iff_odd_drop_bit and_one_eq mod_2_eq_odd)

lemma flag_value: "drop_bit n (x :: u8) AND 1 = (if bit x n then 1 else 0)"
  by (simp add: bit_iff_odd_drop_bit and_one_eq mod_2_eq_odd)

lemma kvs3105_get_data_buffer_status_decodes:
  assumes "T \<lparr>xfer_direction = SG_DXFER_FROM_DEV, cdb = [0x34, 0, 0, 0, 0, 0, 0, 0, 12, 0],
               payload = Some [], payload_length = 12\<rparr> w = ((0, buffer), w')"
  shows "get_data_buffer_status T w =
           (Inr (buffer ! 4,
                 push_bit 16 (ucast (buffer ! 9)) OR push_bit 8 (ucast (buffer ! 10)) OR
                 ucast (buffer ! 11)), w')"
  using assms by (simp add: get_data_buffer_status_def)

lemma kvss905c_get_data_buffer_status_decodes:
  assumes "T \<lparr>xfer_direction = SG_DXFER_FROM_DEV, cdb = [0x34, 0, 0, 0, 0, 0, 0, 0, 12, 0],
               payload = Some [], payload_length = 12\<rparr> w = ((0, buffer), w')"
  shows "kvss905c_get_data_buffer_status host T w =
           (Inr (buffer ! 4,
                 ntohl host
                  (push_bit 16 (ucast (buffer ! 9)) OR push_bit 8 (ucast (buffer ! 10)) OR
                   ucast (buffer ! 11))), w')"
  using assms by (simp add: kvss905c_get_data_buffer_status_def)

text \<open>
  C2. GET DATA BUFFER STATUS decoding. The USB decoder returns byte 4 as the window id and
  \<open>buffer[9]<<16 | buffer[10]<<8 | buffer[11]\<close> as the length
  (\<open>kvs3105_get_data_buffer_status_decodes\<close>). The SCSI-generic decoder passes the assembled
  value through \<^verbatim>\<open>ntohl\<close>: on a little-endian host the response bytes 9, 10, 11 = 0, 0, 1
  give the length 0x01000000 where the USB decoder gives 1.
\<close>

theorem kvss905c_get_data_buffer_status_swaps:
  "kvss905c_get_data_buffer_status LittleEndian
     (stub 0 [0, 0, 0, 0, 0, 0, 0, 0, 0, 0, 0, 1] (replicate 20 0)) idle
   = (Inr (0, 0x01000000), idle)
   \<and> get_data_buffer_status
     (stub 0 [0, 0, 0, 0, 0, 0, 0, 0, 0, 0, 0, 1] (replicate 20 0)) idle
   = (Inr (0, 1), idle)"
  by (simp add: kvss905c_get_data_buffer_status_def get_data_buffer_status_def stub_def
      idle_def ntohl_def be32_def)

text \<open>
  C4. A read of 0x10000 bytes that fails with sense byte 0 = 0xf0, byte 2 = 0x60 and
  residual bytes 3 to 6 = 0x00000032 returns success with result 0x10000 - 0x32 and
  end-of-page 1, in both drivers.
\<close>

theorem read_data_end_of_medium:
  assumes "r \<noteq> 0"
    and "requestsense w' ! 0 = 0xf0"
    and "requestsense w' ! 2 = 0x60"
    and "requestsense w' ! 3 = 0" and "requestsense w' ! 4 = 0"
    and "requestsense w' ! 5 = 0" and "requestsense w' ! 6 = 0x32"
  shows "(kvs3105_read T KVS3105_READ_IMAGE page (if back \<noteq> 0 then 0x80 else 0) 0x10000 w
            = ((r, buffer), w')
          \<longrightarrow> kvs3105_read_data T page back 0x10000 w = (Inr (0x10000 - 0x32, 1), w'))
       \<and> (kvss905c_read T 0 page (if back \<noteq> 0 then 0x80 else 0) 0x10000 w
            = ((r, buffer), w')
          \<longrightarrow> kvss905c_read_data T page back 0x10000 w = (Inr (0x10000 - 0x32, 1), w'))"
  using assms
  by (simp add: kvs3105_read_data_def kvss905c_read_data_def kMaxBuffer_def UNSAFE_MIN_def be32_at_def
      be32_def)

theorem read_data_end_of_medium_witness:
  "kvs3105_read_data (stub 2 [] [0xf0, 0, 0x60, 0, 0, 0, 0x32, 0, 0, 0, 0, 0, 0, 0, 0, 0, 0, 0, 0, 0])
      7 1 0x10000 idle
     = (Inr (0xFFCE, 1),
        idle\<lparr>requestsense := [0xf0, 0, 0x60, 0, 0, 0, 0x32, 0, 0, 0, 0, 0, 0, 0, 0, 0, 0, 0, 0, 0]\<rparr>)
   \<and> kvss905c_read_data (stub 2 [] [0xf0, 0, 0x60, 0, 0, 0, 0x32, 0, 0, 0, 0, 0, 0, 0, 0, 0, 0, 0, 0, 0])
      7 1 0x10000 idle
     = (Inr (0xFFCE, 1),
        idle\<lparr>requestsense := [0xf0, 0, 0x60, 0, 0, 0, 0x32, 0, 0, 0, 0, 0, 0, 0, 0, 0, 0, 0, 0, 0]\<rparr>)"
  using read_data_end_of_medium [of 2
      "idle\<lparr>requestsense := [0xf0, 0, 0x60, 0, 0, 0, 0x32, 0, 0, 0, 0, 0, 0, 0, 0, 0, 0, 0, 0, 0]\<rparr>"
      "stub 2 [] [0xf0, 0, 0x60, 0, 0, 0, 0x32, 0, 0, 0, 0, 0, 0, 0, 0, 0, 0, 0, 0, 0]"
      7 1 idle "[]"]
  by (simp add: kvs3105_read_def kvss905c_read_def stub_def KVS3105_READ_IMAGE_def)

text \<open>
  C10, as stated: the two \<^verbatim>\<open>read_data\<close> functions are not equivalent on every sense
  outcome. With sense byte 0 = 0xf0 and byte 2 = 0x20 (incorrect length without end of
  medium) they return different results.
\<close>

theorem read_data_variants_differ:
  "kvs3105_read_data (stub 2 [] [0xf0, 0, 0x20, 0, 0, 0, 0x32, 0, 0, 0, 0, 0, 0, 0, 0, 0, 0, 0, 0, 0])
      0 0 0x10000 idle
   \<noteq> kvss905c_read_data (stub 2 [] [0xf0, 0, 0x20, 0, 0, 0, 0x32, 0, 0, 0, 0, 0, 0, 0, 0, 0, 0, 0, 0, 0])
      0 0 0x10000 idle"
  by (simp add: kvs3105_read_data_def kvss905c_read_data_def kvs3105_read_def kvss905c_read_def
      stub_def kMaxBuffer_def UNSAFE_MIN_def KVS3105_READ_IMAGE_def idle_def be32_at_def be32_def)

text \<open>
  C10, amended. For every failed image read whose sense data has byte 0 = 0xf0, the
  incorrect-length bit (byte 2, bit 5) set and the end-of-medium bit (byte 2, bit 6)
  clear, \<^verbatim>\<open>kvs3105_read_data\<close> returns success with result = requested - residual and
  end_of_page = 0, and \<^verbatim>\<open>kvss905c_read_data\<close> returns 1. Whenever \<^verbatim>\<open>kvss905c_read_data\<close>
  returns success after a failed read, eof is 1 and byte 2 is exactly 0x60.
\<close>

theorem read_data_divergence:
  assumes "r \<noteq> 0"
    and "kvs3105_read T KVS3105_READ_IMAGE page (if back \<noteq> 0 then 0x80 else 0)
           (UNSAFE_MIN kMaxBuffer blen) w = ((r, buffer), w')"
    and "kvss905c_read T 0 page (if back \<noteq> 0 then 0x80 else 0)
           (UNSAFE_MIN kMaxBuffer blen) w = ((r, buffer), w')"
  shows "(requestsense w' ! 0 = 0xf0 \<and> bit (requestsense w' ! 2) 5
            \<and> \<not> bit (requestsense w' ! 2) 6
          \<longrightarrow> kvs3105_read_data T page back blen w
                = (Inr (UNSAFE_MIN kMaxBuffer blen - be32_at (requestsense w') 3, 0), w')
            \<and> kvss905c_read_data T page back blen w = (Inl 1, w'))
       \<and> (kvss905c_read_data T page back blen w = (Inr (n, e), w')
            \<longrightarrow> e = 1 \<and> requestsense w' ! 2 = 0x60)"
  using assms
  by (auto simp add: kvs3105_read_data_def kvss905c_read_data_def UNSAFE_MIN_def flag_bit
      flag_value Let_def)

theorem read_data_divergence_witness:
  "kvs3105_read_data (stub 2 [] [0xf0, 0, 0x20, 0, 0, 0, 0x32, 0, 0, 0, 0, 0, 0, 0, 0, 0, 0, 0, 0, 0]) 0 0 0x10000 idle
     = (Inr (0xFFCE, 0), idle\<lparr>requestsense := [0xf0, 0, 0x20, 0, 0, 0, 0x32, 0, 0, 0, 0, 0, 0, 0, 0, 0, 0, 0, 0, 0]\<rparr>)
   \<and> kvss905c_read_data (stub 2 [] [0xf0, 0, 0x20, 0, 0, 0, 0x32, 0, 0, 0, 0, 0, 0, 0, 0, 0, 0, 0, 0, 0]) 0 0 0x10000 idle
     = (Inl 1, idle\<lparr>requestsense := [0xf0, 0, 0x20, 0, 0, 0, 0x32, 0, 0, 0, 0, 0, 0, 0, 0, 0, 0, 0, 0, 0]\<rparr>)
   \<and> kvss905c_read_data (stub 2 [] [0xf0, 0, 0x60, 0, 0, 0, 0x32, 0, 0, 0, 0, 0, 0, 0, 0, 0, 0, 0, 0, 0]) 0 0 0x10000 idle
        = (Inr (0xFFCE, 1), idle\<lparr>requestsense := [0xf0, 0, 0x60, 0, 0, 0, 0x32, 0, 0, 0, 0, 0, 0, 0, 0, 0, 0, 0, 0, 0]\<rparr>)
   \<and> [0xf0, 0, 0x60, 0, 0, 0, 0x32, 0, 0, 0, 0, 0, 0, 0, 0, 0, 0, 0, 0, 0] ! 2 = (0x60 :: u8)"
  using read_data_divergence [of 2 "stub 2 [] [0xf0, 0, 0x20, 0, 0, 0, 0x32, 0, 0, 0, 0, 0, 0, 0, 0, 0, 0, 0, 0, 0]" 0 0 "0x10000" idle "[]"
      "idle\<lparr>requestsense := [0xf0, 0, 0x20, 0, 0, 0, 0x32, 0, 0, 0, 0, 0, 0, 0, 0, 0, 0, 0, 0, 0]\<rparr>" 0 0]
    read_data_divergence [of 2 "stub 2 [] [0xf0, 0, 0x60, 0, 0, 0, 0x32, 0, 0, 0, 0, 0, 0, 0, 0, 0, 0, 0, 0, 0]" 0 0 "0x10000" idle "[]"
      "idle\<lparr>requestsense := [0xf0, 0, 0x60, 0, 0, 0, 0x32, 0, 0, 0, 0, 0, 0, 0, 0, 0, 0, 0, 0, 0]\<rparr>" "0xFFCE" 1]
  by (simp add: kvs3105_read_def kvss905c_read_def kvss905c_read_data_def stub_def
      KVS3105_READ_IMAGE_def UNSAFE_MIN_def kMaxBuffer_def be32_at_def be32_def)

section \<open>The buffer wait\<close>

lemma kvs3105_wait_diverges:
  assumes step: "\<And>w. I w \<Longrightarrow> \<exists>window_id w'. get_data_buffer_status T w = (Inr (window_id, 0), w') \<and> I w'"
  shows "I w \<Longrightarrow> kvs3105_data_buffer_wait T w = None"
proof -
  have "T' = T \<longrightarrow> \<not> I w"
    if ret: "kvs3105_data_buffer_wait T' w = Some y" for T' w y
  proof (rule kvs3105_data_buffer_wait.raw_induct
      [where P = "\<lambda>T' w y. T' = T \<longrightarrow> \<not> I w", OF _ ret], goal_cases)
    case (1 f T' w y)
    show ?case
    proof (intro impI notI)
      assume eq: "T' = T" and inv: "I w"
      from step [OF inv] obtain window_id w'
        where st: "get_data_buffer_status T w = (Inr (window_id, 0), w')" and inv': "I w'"
        by blast
      from 1(2) eq st have "f T w' = Some y" by simp
      from 1(1) [OF this] inv' show False by simp
    qed
  qed
  then show "I w \<Longrightarrow> kvs3105_data_buffer_wait T w = None"
    by (cases "kvs3105_data_buffer_wait T w") auto
qed

lemma kvss905c_wait_diverges:
  assumes step: "\<And>w. I w \<Longrightarrow> \<exists>window_id w'. kvss905c_get_data_buffer_status host T w = (Inr (window_id, 0), w') \<and> I w'"
  shows "I w \<Longrightarrow> kvss905c_data_buffer_wait host T w = None"
proof -
  have "host' = host \<and> T' = T \<longrightarrow> \<not> I w"
    if ret: "kvss905c_data_buffer_wait host' T' w = Some y" for host' T' w y
  proof (rule kvss905c_data_buffer_wait.raw_induct
      [where P = "\<lambda>host' T' w y. host' = host \<and> T' = T \<longrightarrow> \<not> I w", OF _ ret], goal_cases)
    case (1 f host' T' w y)
    show ?case
    proof (intro impI notI)
      assume eq: "host' = host \<and> T' = T" and inv: "I w"
      from step [OF inv] obtain window_id w'
        where st: "kvss905c_get_data_buffer_status host T w = (Inr (window_id, 0), w')" and inv': "I w'"
        by blast
      from 1(2) eq st have "f host T w' = Some y" by simp
      from 1(1) [OF this] inv' show False by simp
    qed
  qed
  then show "I w \<Longrightarrow> kvss905c_data_buffer_wait host T w = None"
    by (cases "kvss905c_data_buffer_wait host T w") auto
qed

lemma kvs3105_wait_returns:
  assumes ret: "kvs3105_data_buffer_wait T w = Some y"
  shows "\<exists>w0. get_data_buffer_status T w0 = (Inl (fst y), snd y) \<or>
          (fst y = 0 \<and> (\<exists>window_id len. len \<noteq> 0 \<and>
             get_data_buffer_status T w0 = (Inr (window_id, len), snd y)))"
proof (rule kvs3105_data_buffer_wait.raw_induct
    [where P = "\<lambda>T w y. \<exists>w0. get_data_buffer_status T w0 = (Inl (fst y), snd y) \<or>
          (fst y = 0 \<and> (\<exists>window_id len. len \<noteq> 0 \<and>
             get_data_buffer_status T w0 = (Inr (window_id, len), snd y)))", OF _ ret], goal_cases)
  case (1 f T w y)
  show ?case
  proof (cases "get_data_buffer_status T w")
    case (Pair res w')
    show ?thesis
    proof (cases res)
      case (Inl r)
      with Pair 1(2) show ?thesis by (intro exI [of _ w]) auto
    next
      case (Inr p)
      obtain window_id len where p: "p = (window_id, len)" by (cases p)
      show ?thesis
      proof (cases "len = 0")
        case True
        with Pair Inr p 1(2) have "f T w' = Some y" by simp
        then show ?thesis by (rule 1(1))
      next
        case False
        with Pair Inr p 1(2) show ?thesis by (intro exI [of _ w]) auto
      qed
    qed
  qed
qed

lemma kvss905c_wait_returns:
  assumes ret: "kvss905c_data_buffer_wait host T w = Some y"
  shows "\<exists>w0. (fst y = 1 \<and> (\<exists>r. kvss905c_get_data_buffer_status host T w0 = (Inl r, snd y))) \<or>
          (fst y = 0 \<and> (\<exists>window_id len. len \<noteq> 0 \<and>
             kvss905c_get_data_buffer_status host T w0 = (Inr (window_id, len), snd y)))"
proof (rule kvss905c_data_buffer_wait.raw_induct
    [where P = "\<lambda>host T w y. \<exists>w0. (fst y = 1 \<and> (\<exists>r. kvss905c_get_data_buffer_status host T w0 = (Inl r, snd y))) \<or>
          (fst y = 0 \<and> (\<exists>window_id len. len \<noteq> 0 \<and>
             kvss905c_get_data_buffer_status host T w0 = (Inr (window_id, len), snd y)))", OF _ ret], goal_cases)
  case (1 f host T w y)
  show ?case
  proof (cases "kvss905c_get_data_buffer_status host T w")
    case (Pair res w')
    show ?thesis
    proof (cases res)
      case (Inl r)
      with Pair 1(2) show ?thesis by (intro exI [of _ w]) auto
    next
      case (Inr p)
      obtain window_id len where p: "p = (window_id, len)" by (cases p)
      show ?thesis
      proof (cases "len = 0")
        case True
        with Pair Inr p 1(2) have "f host T w' = Some y" by simp
        then show ?thesis by (rule 1(1))
      next
        case False
        with Pair Inr p 1(2) show ?thesis by (intro exI [of _ w]) auto
      qed
    qed
  qed
qed

text \<open>
  C8, as stated: the wait has no cancellation input at all, and against a device that
  answers every status poll with good status and a zero length it never returns, in
  either driver.
\<close>

theorem buffer_wait_spins_forever:
  "kvs3105_data_buffer_wait (stub 0 (replicate 12 0) (replicate 20 0)) idle = None
   \<and> kvss905c_data_buffer_wait LittleEndian (stub 0 (replicate 12 0) (replicate 20 0)) idle = None"
proof
  show "kvs3105_data_buffer_wait (stub 0 (replicate 12 0) (replicate 20 0)) idle = None"
    by (rule kvs3105_wait_diverges [where I = "\<lambda>w. True"])
       (simp_all add: get_data_buffer_status_def stub_def)
  show "kvss905c_data_buffer_wait LittleEndian (stub 0 (replicate 12 0) (replicate 20 0)) idle = None"
    by (rule kvss905c_wait_diverges [where I = "\<lambda>w. True"])
       (simp_all add: kvss905c_get_data_buffer_status_def stub_def ntohl_def be32_def)
qed

text \<open>
  C8, amended. \<^verbatim>\<open>kvs3105_data_buffer_wait\<close> and \<^verbatim>\<open>kvss905c_data_buffer_wait\<close> take no
  cancellation signal. If the device keeps reporting a zero buffer length with good
  status (in every state \<open>I\<close> can reach), the wait never returns. When it does
  return, its last poll either failed (the return code is that poll's code, or 1 in
  kvss905c) or reported a non-zero length (the return code is 0).
\<close>

theorem data_buffer_wait_returns_only_on_data_or_error:
  "((\<forall>v. I v \<longrightarrow> (\<exists>window_id v'. get_data_buffer_status T v = (Inr (window_id, 0), v') \<and> I v'))
      \<longrightarrow> I w \<longrightarrow> kvs3105_data_buffer_wait T w = None)
   \<and> ((\<forall>v. I v \<longrightarrow> (\<exists>window_id v'.
            kvss905c_get_data_buffer_status host T v = (Inr (window_id, 0), v') \<and> I v'))
      \<longrightarrow> I w \<longrightarrow> kvss905c_data_buffer_wait host T w = None)
   \<and> (kvs3105_data_buffer_wait T w = Some (rc, w')
      \<longrightarrow> (\<exists>w0. get_data_buffer_status T w0 = (Inl rc, w') \<or>
                (rc = 0 \<and> (\<exists>window_id len. len \<noteq> 0 \<and>
                   get_data_buffer_status T w0 = (Inr (window_id, len), w')))))
   \<and> (kvss905c_data_buffer_wait host T w = Some (rc, w')
      \<longrightarrow> (\<exists>w0. (rc = 1 \<and> (\<exists>r. kvss905c_get_data_buffer_status host T w0 = (Inl r, w'))) \<or>
                (rc = 0 \<and> (\<exists>window_id len. len \<noteq> 0 \<and>
                   kvss905c_get_data_buffer_status host T w0 = (Inr (window_id, len), w')))))"
proof (intro conjI impI)
  assume "\<forall>v. I v \<longrightarrow> (\<exists>window_id v'. get_data_buffer_status T v = (Inr (window_id, 0), v') \<and> I v')"
    and "I w"
  then show "kvs3105_data_buffer_wait T w = None"
    by (intro kvs3105_wait_diverges [where I = I]) blast+
next
  assume "\<forall>v. I v \<longrightarrow> (\<exists>window_id v'.
            kvss905c_get_data_buffer_status host T v = (Inr (window_id, 0), v') \<and> I v')"
    and "I w"
  then show "kvss905c_data_buffer_wait host T w = None"
    by (intro kvss905c_wait_diverges [where I = I]) blast+
next
  assume "kvs3105_data_buffer_wait T w = Some (rc, w')"
  from kvs3105_wait_returns [OF this]
  show "\<exists>w0. get_data_buffer_status T w0 = (Inl rc, w') \<or>
                (rc = 0 \<and> (\<exists>window_id len. len \<noteq> 0 \<and>
                   get_data_buffer_status T w0 = (Inr (window_id, len), w')))"
    by simp
next
  assume "kvss905c_data_buffer_wait host T w = Some (rc, w')"
  from kvss905c_wait_returns [OF this]
  show "\<exists>w0. (rc = 1 \<and> (\<exists>r. kvss905c_get_data_buffer_status host T w0 = (Inl r, w'))) \<or>
                (rc = 0 \<and> (\<exists>window_id len. len \<noteq> 0 \<and>
                   kvss905c_get_data_buffer_status host T w0 = (Inr (window_id, len), w')))"
    by simp
qed

theorem data_buffer_wait_witness:
  "kvs3105_data_buffer_wait (stub 0 (replicate 12 0) (replicate 20 0)) idle = None
   \<and> kvss905c_data_buffer_wait LittleEndian (stub 0 (replicate 12 0) (replicate 20 0)) idle = None
   \<and> kvs3105_data_buffer_wait (stub 0 [0, 0, 0, 0, 0, 0, 0, 0, 0, 0, 0, 1] (replicate 20 0)) idle
       = Some (0, idle)
   \<and> (\<exists>w0. get_data_buffer_status (stub 0 [0, 0, 0, 0, 0, 0, 0, 0, 0, 0, 0, 1] (replicate 20 0)) w0
             = (Inr (0, 1), idle))
   \<and> kvss905c_data_buffer_wait LittleEndian
        (stub 0 [0, 0, 0, 0, 0, 0, 0, 0, 0, 0, 0, 1] (replicate 20 0)) idle
       = Some (0, idle)
   \<and> (\<exists>w0. kvss905c_get_data_buffer_status LittleEndian
               (stub 0 [0, 0, 0, 0, 0, 0, 0, 0, 0, 0, 0, 1] (replicate 20 0)) w0
             = (Inr (0, 0x01000000), idle))"
proof -
  let ?empty = "stub 0 (replicate 12 0) (replicate 20 0)"
  let ?ready = "stub 0 [0, 0, 0, 0, 0, 0, 0, 0, 0, 0, 0, 1] (replicate 20 0)"
  have st: "get_data_buffer_status ?empty v = (Inr (0, 0), idle)"
    and st': "kvss905c_get_data_buffer_status LittleEndian ?empty v = (Inr (0, 0), idle)"
    and rd: "get_data_buffer_status ?ready v = (Inr (0, 1), idle)"
    and rd': "kvss905c_get_data_buffer_status LittleEndian ?ready v = (Inr (0, 0x01000000), idle)"
    for v :: "unit world"
    by (simp_all add: get_data_buffer_status_def kvss905c_get_data_buffer_status_def stub_def
        idle_def ntohl_def be32_def)
  have a: "kvs3105_data_buffer_wait ?ready idle = Some (0, idle)"
    by (subst kvs3105_data_buffer_wait.simps) (simp add: rd)
  have b: "kvss905c_data_buffer_wait LittleEndian ?ready idle = Some (0, idle)"
    by (subst kvss905c_data_buffer_wait.simps) (simp add: rd')
  from data_buffer_wait_returns_only_on_data_or_error
         [of "\<lambda>v. True" ?empty idle LittleEndian 0 idle]
  have c: "kvs3105_data_buffer_wait ?empty idle = None"
    and d: "kvss905c_data_buffer_wait LittleEndian ?empty idle = None"
    by (simp_all add: st st')
  from data_buffer_wait_returns_only_on_data_or_error
         [of "\<lambda>v. True" ?ready idle LittleEndian 0 idle] a b
  have e: "\<exists>w0. get_data_buffer_status ?ready w0 = (Inr (0, 1), idle)"
    and f: "\<exists>w0. kvss905c_get_data_buffer_status LittleEndian ?ready w0
             = (Inr (0, 0x01000000), idle)"
    by (simp_all add: rd rd')
  from a b c d e f show ?thesis by blast
qed

section \<open>The sense data of a short read\<close>

lemma be32_at_short_read_sense: "be32_at (short_read_sense residual) 3 = residual"
  by (simp add: be32_at_def short_read_sense_def be32_bytes)

lemma short_read_sense_0: "short_read_sense residual ! 0 = 0xf0"
  and short_read_sense_2: "short_read_sense residual ! 2 = 0x60"
  by (simp_all add: short_read_sense_def)

section \<open>The order of retrievals in a block\<close>

lemma unat_succ_below: "page < (block_size :: u32) \<Longrightarrow> unat (page + 1) = Suc (unat page)"
  using unat_add_lem [of page 1] unsigned_less [of block_size, where ?'a = nat]
  by (simp add: word_less_nat_alt)

lemma upt_from_word:
  "page < (block_size :: u32) \<Longrightarrow>
   [unat page..<unat block_size] = unat page # [unat (page + 1)..<unat block_size]"
  by (simp add: unat_succ_below word_less_nat_alt upt_conv_Cons)

lemma scan_block_remaining:
  "scan_block body duplex block_size page side w =
     retrieve_in_order body (remaining_order duplex block_size page side) w"
proof (induction body duplex block_size page side w rule: scan_block.induct)
  case (1 body duplex block_size page side w)
  show ?case
  proof (cases "page < block_size")
    case False
    then have "unat block_size \<le> unat page"
      by (simp add: word_less_nat_alt)
    with False show ?thesis
      by (subst scan_block.simps) (simp add: remaining_order_def)
  next
    case True
    note lt = True
    show ?thesis
    proof (cases "body page side w")
      case None
      with lt show ?thesis
        by (subst scan_block.simps) (auto simp add: remaining_order_def upt_from_word)
    next
      case (Some res)
      show ?thesis
      proof (cases res)
        case (Inl e)
        with lt Some show ?thesis
          by (subst scan_block.simps) (auto simp add: remaining_order_def upt_from_word)
      next
        case (Inr w')
        show ?thesis
        proof (cases "duplex = 0")
          case True
          with lt Some Inr "1.IH"(3) [of res w'] show ?thesis
            by (subst scan_block.simps) (auto simp add: remaining_order_def upt_from_word)
        next
          case False
          note dup = False
          show ?thesis
          proof (cases "side = 0")
            case True
            have "scan_block body duplex block_size page 1 w' =
                  retrieve_in_order body (remaining_order duplex block_size page 1) w'"
              using "1.IH"(2) [of res w'] lt Some Inr dup True by simp
            with lt Some Inr dup True show ?thesis
              by (subst scan_block.simps) (auto simp add: remaining_order_def upt_from_word)
          next
            case False
            have "scan_block body duplex block_size (page + 1) 0 w' =
                  retrieve_in_order body (remaining_order duplex block_size (page + 1) 0) w'"
              using "1.IH"(1) [of res w'] lt Some Inr dup False by simp
            with lt Some Inr dup False show ?thesis
              by (subst scan_block.simps) (simp add: remaining_order_def)
          qed
        qed
      qed
    qed
  qed
qed

lemma ucast_plus_256: "(ucast ((page :: u32) + 256) :: u8) = ucast page"
proof -
  have d: "(256 :: int) dvd 4294967296" by simp
  show ?thesis
    apply transfer
    apply (simp add: take_bit_eq_mod mod_mod_cancel [OF d])
    done
qed

text \<open>
  The callees take the page as \<^verbatim>\<open>uint8_t\<close>: the retrievals for page \<open>p + 256\<close> are those
  for page \<open>p\<close>, which is how the device-side page index wraps at 256 while the loop
  counter goes on.
\<close>

lemma scan_side_page_wraps:
  "kvs3105_scan_side T (page + 256) side w = kvs3105_scan_side T page side w
   \<and> kvss905c_scan_side host T (page + 256) side w = kvss905c_scan_side host T page side w"
  unfolding kvs3105_scan_side_def kvss905c_scan_side_def ucast_plus_256 by simp

lemma logged_issues: "issued (snd (logged T req w)) = issued w @ [req]"
  by (simp add: logged_def issued_def split_beta)

lemma picture_size_issues:
  "issued (snd (kvs3105_picture_size (logged T) page back w))
     = issued w @ [picture_size_request page (if back \<noteq> 0 then 0x80 else 0)]"
  "issued (snd (kvss905c_picture_size (logged T) page back w))
     = issued w @ [picture_size_request page (if back \<noteq> 0 then 0x80 else 0)]"
  by (simp_all add: kvs3105_picture_size_def kvss905c_picture_size_def kvs3105_read_def
      kvss905c_read_def KVS3105_READ_PICTURE_ELEMENT_SIZE_def split_beta logged_issues
      picture_size_request_def)

lemma status_issues:
  "issued (snd (get_data_buffer_status (logged T) w)) = issued w @ [buffer_status_request]"
  "issued (snd (kvss905c_get_data_buffer_status host (logged T) w))
     = issued w @ [buffer_status_request]"
  by (simp_all add: get_data_buffer_status_def kvss905c_get_data_buffer_status_def split_beta
      Let_def logged_issues buffer_status_request_def)

lemma read_data_issues:
  "issued (snd (kvs3105_read_data (logged T) page back 0x10000 w))
     = issued w @ [image_read_request page (if back \<noteq> 0 then 0x80 else 0)]"
  "issued (snd (kvss905c_read_data (logged T) page back 0x10000 w))
     = issued w @ [image_read_request page (if back \<noteq> 0 then 0x80 else 0)]"
  by (simp_all add: kvs3105_read_data_def kvss905c_read_data_def kvs3105_read_def
      kvss905c_read_def KVS3105_READ_IMAGE_def UNSAFE_MIN_def kMaxBuffer_def split_beta
      Let_def logged_issues image_read_request_def)

lemma kvs3105_wait_issues:
  assumes ret: "kvs3105_data_buffer_wait T' w = Some y"
  shows "T' = logged T \<longrightarrow>
         (\<exists>n. 0 < n \<and> issued (snd y) = issued w @ replicate n buffer_status_request)"
proof (rule kvs3105_data_buffer_wait.raw_induct
    [where P = "\<lambda>T' w y. T' = logged T \<longrightarrow>
         (\<exists>n. 0 < n \<and> issued (snd y) = issued w @ replicate n buffer_status_request)",
     OF _ ret], goal_cases)
  case (1 f T' w y)
  show ?case
  proof (rule impI)
    assume T': "T' = logged T"
    note body = 1(2) [unfolded T']
    show "\<exists>n. 0 < n \<and> issued (snd y) = issued w @ replicate n buffer_status_request"
    proof (cases "get_data_buffer_status (logged T) w")
      case (Pair res w1)
      with status_issues(1) [of T w]
      have w1: "issued w1 = issued w @ [buffer_status_request]" by simp
      show ?thesis
      proof (cases res)
        case (Inl rc)
        with body Pair w1 have "issued (snd y) = issued w @ replicate 1 buffer_status_request"
          by auto
        then show ?thesis by blast
      next
        case (Inr wl)
        show ?thesis
        proof (cases "snd wl = 0")
          case False
          with body Pair Inr w1
          have "issued (snd y) = issued w @ replicate 1 buffer_status_request"
            by (auto simp add: split_beta)
          then show ?thesis by blast
        next
          case True
          with body Pair Inr have "f (logged T) w1 = Some y"
            by (auto simp add: split_beta)
          from 1(1) [OF this] obtain n where
            "issued (snd y) = issued w1 @ replicate n buffer_status_request" by blast
          with w1 have "issued (snd y) = issued w @ replicate (Suc n) buffer_status_request"
            by simp
          then show ?thesis by blast
        qed
      qed
    qed
  qed
qed

lemma kvss905c_wait_issues:
  assumes ret: "kvss905c_data_buffer_wait host T' w = Some y"
  shows "T' = logged T \<longrightarrow>
         (\<exists>n. 0 < n \<and> issued (snd y) = issued w @ replicate n buffer_status_request)"
proof (rule kvss905c_data_buffer_wait.raw_induct
    [where P = "\<lambda>host T' w y. T' = logged T \<longrightarrow>
         (\<exists>n. 0 < n \<and> issued (snd y) = issued w @ replicate n buffer_status_request)",
     OF _ ret], goal_cases)
  case (1 f host T' w y)
  show ?case
  proof (rule impI)
    assume T': "T' = logged T"
    note body = 1(2) [unfolded T']
    show "\<exists>n. 0 < n \<and> issued (snd y) = issued w @ replicate n buffer_status_request"
    proof (cases "kvss905c_get_data_buffer_status host (logged T) w")
      case (Pair res w1)
      with status_issues(2) [of host T w]
      have w1: "issued w1 = issued w @ [buffer_status_request]" by simp
      show ?thesis
      proof (cases res)
        case (Inl rc)
        with body Pair w1 have "issued (snd y) = issued w @ replicate 1 buffer_status_request"
          by auto
        then show ?thesis by blast
      next
        case (Inr wl)
        show ?thesis
        proof (cases "snd wl = 0")
          case False
          with body Pair Inr w1
          have "issued (snd y) = issued w @ replicate 1 buffer_status_request"
            by (auto simp add: split_beta)
          then show ?thesis by blast
        next
          case True
          with body Pair Inr have "f host (logged T) w1 = Some y"
            by (auto simp add: split_beta)
          from 1(1) [OF this] obtain n where
            "issued (snd y) = issued w1 @ replicate n buffer_status_request" by blast
          with w1 have "issued (snd y) = issued w @ replicate (Suc n) buffer_status_request"
            by simp
          then show ?thesis by blast
        qed
      qed
    qed
  qed
qed

lemma drain_page_issues:
  assumes one: "\<And>v. issued (snd (rd v)) = issued v @ [r]"
    and ret: "drain_page rd' acc reads w = Some y"
  shows "rd' = rd \<longrightarrow>
         (\<exists>n. 0 < n \<and> issued (snd (snd y)) = issued w @ replicate n r)"
proof (rule drain_page.raw_induct
    [where P = "\<lambda>rd' acc reads w y. rd' = rd \<longrightarrow>
         (\<exists>n. 0 < n \<and> issued (snd (snd y)) = issued w @ replicate n r)",
     OF _ ret], goal_cases)
  case (1 f rd' acc reads w y)
  show ?case
  proof (rule impI)
    assume rd': "rd' = rd"
    note body = 1(2) [unfolded rd']
    show "\<exists>n. 0 < n \<and> issued (snd (snd y)) = issued w @ replicate n r"
    proof (cases "rd w")
      case (Pair res w1)
      with one [of w] have w1: "issued w1 = issued w @ [r]" by simp
      show ?thesis
      proof (cases res)
        case (Inl rc)
        with body Pair w1 have "issued (snd (snd y)) = issued w @ replicate 1 r"
          by auto
        then show ?thesis by blast
      next
        case (Inr we)
        show ?thesis
        proof (cases "snd we = 0")
          case False
          with body Pair Inr w1 have "issued (snd (snd y)) = issued w @ replicate 1 r"
            by (auto simp add: split_beta)
          then show ?thesis by blast
        next
          case True
          with body Pair Inr
          have "f rd (acc + fst we) (reads @ [(fst we, snd we)]) w1 = Some y"
            by (auto simp add: split_beta)
          from 1(1) [OF this] obtain n where
            "issued (snd (snd y)) = issued w1 @ replicate n r" by blast
          with w1 have "issued (snd (snd y)) = issued w @ replicate (Suc n) r"
            by simp
          then show ?thesis by blast
        qed
      qed
    qed
  qed
qed

lemma kvs3105_scan_side_issues:
  assumes ret: "kvs3105_scan_side (logged T) page side w = Some (Inr w')"
  shows "\<exists>polls reads. 0 < polls \<and> 0 < reads \<and>
           issued w' = issued w @
             retrieval (ucast page) (if (of_int side :: u8) \<noteq> 0 then 0x80 else 0) polls reads"
proof -
  let ?q2 = "if (of_int side :: u8) \<noteq> 0 then 0x80 else 0 :: u8"
  obtain res1 w1 where ps: "kvs3105_picture_size (logged T) (ucast page) (of_int side) w = (res1, w1)"
    by (cases "kvs3105_picture_size (logged T) (ucast page) (of_int side) w")
  with picture_size_issues(1) [of T "ucast page" "of_int side" w]
  have l1: "issued w1 = issued w @ [picture_size_request (ucast page) ?q2]" by simp
  from ret ps obtain wh where res1: "res1 = Inr wh"
    by (cases res1) (simp_all add: kvs3105_scan_side_def)
  from ret ps res1 obtain waitstatus w2 where
    wait: "kvs3105_data_buffer_wait (logged T) w1 = Some (waitstatus, w2)"
    by (cases "kvs3105_data_buffer_wait (logged T) w1")
       (auto simp add: kvs3105_scan_side_def split_beta)
  from kvs3105_wait_issues [OF wait, of T] obtain polls where
    polls: "0 < polls" and l2: "issued w2 = issued w1 @ replicate polls buffer_status_request"
    by auto
  from ret ps res1 wait have ws: "waitstatus = 0"
    by (auto simp add: kvs3105_scan_side_def split_beta split: if_splits)
  let ?rd = "kvs3105_read_data (logged T) (ucast page) (of_int side) KVS3105_BUFFER_SIZE"
  from ret ps res1 wait ws obtain res3 reads3 w3 where
    drain: "drain_page ?rd 0 [] w2 = Some (res3, reads3, w3)"
    by (cases "drain_page ?rd 0 [] w2") (auto simp add: kvs3105_scan_side_def split_beta)
  from ret ps res1 wait ws drain have w3: "w3 = w'"
    by (cases res3) (auto simp add: kvs3105_scan_side_def split_beta)
  have one: "issued (snd (?rd v)) = issued v @ [image_read_request (ucast page) ?q2]" for v
    using read_data_issues(1) [of T "ucast page" "of_int side" v]
    by (simp add: KVS3105_BUFFER_SIZE_def)
  from drain_page_issues [of ?rd, OF one drain] obtain reads where
    reads: "0 < reads"
    and l3: "issued w3 = issued w2 @ replicate reads (image_read_request (ucast page) ?q2)"
    by auto
  from l1 l2 l3 w3
  have "issued w' = issued w @ retrieval (ucast page) ?q2 polls reads"
    by (simp add: retrieval_def)
  with polls reads show ?thesis by blast
qed

lemma kvss905c_scan_side_issues:
  assumes ret: "kvss905c_scan_side host (logged T) page side w = Some (Inr w')"
  shows "\<exists>polls reads. 0 < polls \<and> 0 < reads \<and>
           issued w' = issued w @
             retrieval (ucast page) (if (of_int side :: u8) \<noteq> 0 then 0x80 else 0) polls reads"
proof -
  let ?q2 = "if (of_int side :: u8) \<noteq> 0 then 0x80 else 0 :: u8"
  obtain res1 w1 where ps: "kvss905c_picture_size (logged T) (ucast page) (of_int side) w = (res1, w1)"
    by (cases "kvss905c_picture_size (logged T) (ucast page) (of_int side) w")
  with picture_size_issues(2) [of T "ucast page" "of_int side" w]
  have l1: "issued w1 = issued w @ [picture_size_request (ucast page) ?q2]" by simp
  from ret ps obtain wh where res1: "res1 = Inr wh"
    by (cases res1) (simp_all add: kvss905c_scan_side_def)
  from ret ps res1 obtain waitstatus w2 where
    wait: "kvss905c_data_buffer_wait host (logged T) w1 = Some (waitstatus, w2)"
    by (cases "kvss905c_data_buffer_wait host (logged T) w1")
       (auto simp add: kvss905c_scan_side_def split_beta)
  from kvss905c_wait_issues [OF wait, of T] obtain polls where
    polls: "0 < polls" and l2: "issued w2 = issued w1 @ replicate polls buffer_status_request"
    by auto
  from ret ps res1 wait have ws: "waitstatus = 0"
    by (auto simp add: kvss905c_scan_side_def split_beta split: if_splits)
  let ?rd = "kvss905c_read_data (logged T) (ucast page) (of_int side) KVSS905C_BUFFER_SIZE"
  from ret ps res1 wait ws obtain res3 reads3 w3 where
    drain: "drain_page ?rd 0 [] w2 = Some (res3, reads3, w3)"
    by (cases "drain_page ?rd 0 [] w2") (auto simp add: kvss905c_scan_side_def split_beta)
  from ret ps res1 wait ws drain have w3: "w3 = w'"
    by (cases res3) (auto simp add: kvss905c_scan_side_def split_beta)
  have one: "issued (snd (?rd v)) = issued v @ [image_read_request (ucast page) ?q2]" for v
    using read_data_issues(2) [of T "ucast page" "of_int side" v]
    by (simp add: KVSS905C_BUFFER_SIZE_def)
  from drain_page_issues [of ?rd, OF one drain] obtain reads where
    reads: "0 < reads"
    and l3: "issued w3 = issued w2 @ replicate reads (image_read_request (ucast page) ?q2)"
    by auto
  from l1 l2 l3 w3
  have "issued w' = issued w @ retrieval (ucast page) ?q2 polls reads"
    by (simp add: retrieval_def)
  with polls reads show ?thesis by blast
qed

lemma retrieve_in_order_issues:
  assumes body: "\<And>page side v v'. body page side v = Some (Inr v') \<Longrightarrow>
           \<exists>polls reads. 0 < polls \<and> 0 < reads \<and>
             issued v' = issued v @
               retrieval (ucast page) (if (of_int side :: u8) \<noteq> 0 then 0x80 else 0) polls reads"
  shows "retrieve_in_order body order w = Some (Inr w') \<Longrightarrow>
         \<exists>ns. length ns = length order \<and> (\<forall>n \<in> set ns. 0 < fst n \<and> 0 < snd n) \<and>
           issued w' = issued w @
             concat (map (\<lambda>((page, q2), (polls, reads)). retrieval page q2 polls reads)
               (zip (map (\<lambda>(page :: u32, side :: int).
                       (ucast page :: u8, if (of_int side :: u8) \<noteq> 0 then 0x80 else 0 :: u8)) order)
                    ns))"
proof (induction order arbitrary: w)
  case Nil
  then show ?case by simp
next
  case (Cons ps rest)
  obtain page side where ps: "ps = (page, side)" by (cases ps)
  from Cons.prems ps obtain w1 where
    b: "body page side w = Some (Inr w1)"
    and r: "retrieve_in_order body rest w1 = Some (Inr w')"
    by (auto split: option.splits sum.splits)
  from body [OF b] obtain polls reads where
    n: "0 < polls" "0 < reads"
    and l1: "issued w1 = issued w @
               retrieval (ucast page) (if (of_int side :: u8) \<noteq> 0 then 0x80 else 0) polls reads"
    by blast
  from Cons.IH [OF r] obtain ns where
    len: "length ns = length rest"
    and pos: "\<forall>n \<in> set ns. 0 < fst n \<and> 0 < snd n"
    and l2: "issued w' = issued w1 @
             concat (map (\<lambda>((page, q2), (polls, reads)). retrieval page q2 polls reads)
               (zip (map (\<lambda>(page :: u32, side :: int).
                       (ucast page :: u8, if (of_int side :: u8) \<noteq> 0 then 0x80 else 0 :: u8)) rest)
                    ns))"
    by blast
  show ?case
  proof (intro exI [of _ "(polls, reads) # ns"] conjI)
    show "length ((polls, reads) # ns) = length (ps # rest)" using len by simp
    show "\<forall>n \<in> set ((polls, reads) # ns). 0 < fst n \<and> 0 < snd n" using pos n by simp
    show "issued w' = issued w @
             concat (map (\<lambda>((page, q2), (polls, reads)). retrieval page q2 polls reads)
               (zip (map (\<lambda>(page :: u32, side :: int).
                       (ucast page :: u8, if (of_int side :: u8) \<noteq> 0 then 0x80 else 0 :: u8))
                     (ps # rest))
                    ((polls, reads) # ns)))"
      using l1 l2 ps by simp
  qed
qed

lemma ucast_of_nat_u32_u8: "(ucast (of_nat p :: u32) :: u8) = of_nat p"
proof -
  have d: "(256 :: int) dvd 4294967296" by simp
  show ?thesis
    apply transfer
    apply (simp add: take_bit_eq_mod mod_mod_cancel [OF d])
    done
qed

lemma issued_order_page_side_order:
  "map (\<lambda>(page :: u32, side :: int).
          (ucast page :: u8, if (of_int side :: u8) \<noteq> 0 then 0x80 else 0 :: u8))
     (page_side_order duplex k) = issued_order duplex k"
  by (simp add: page_side_order_def issued_order_def map_concat o_def ucast_of_nat_u32_u8)

lemma scan_block_page_side_order:
  "scan_block body duplex block_size 0 0 w =
     retrieve_in_order body (page_side_order duplex (unat block_size)) w"
proof -
  have "remaining_order duplex block_size 0 0 = page_side_order duplex (unat block_size)"
    by (simp add: remaining_order_def page_side_order_def)
  with scan_block_remaining [of body duplex block_size 0 0 w] show ?thesis by simp
qed

lemma issued_order_exact:
  assumes "k \<le> 256"
  shows "map (\<lambda>(page, q2). (unat page, q2)) (issued_order duplex k)
         = map (\<lambda>(page, side). (unat page, if side \<noteq> 0 then 0x80 else 0))
             (page_side_order duplex k)"
proof -
  have small: "unat (of_nat p :: u8) = unat (of_nat p :: u32)" if "p \<in> set [0..<k]" for p
  proof -
    from that assms have "p < 256" by simp
    then show ?thesis by (simp add: unat_of_nat)
  qed
  show ?thesis
    unfolding issued_order_def page_side_order_def
    by (auto simp add: map_concat o_def small intro!: arg_cong [where f = concat])
qed

text \<open>
  C7, amended. Take any device, put a log in front of it and let the inner loop of
  \<^verbatim>\<open>main\<close> scan a block of \<open>block_size\<close> pages from page 0, side 0. The loop does the
  retrievals of the pairs (0, front), (0, back), (1, front), ..., (block_size - 1, back) in
  duplex mode and (0, front), (1, front), ..., (block_size - 1, front) otherwise, one after
  the other, stopping at the first that fails or does not return. When the block
  completes, the requests that reached the device are, for each pair in that order and
  with nothing in between, one READ of the picture size, one or more polls of the buffer
  status and one or more READs of image data, and bytes 4 and 5 of those READs are the
  page number modulo 256 (the callees take the page as \<^verbatim>\<open>uint8_t\<close>) and the side (0 front,
  0x80 back). For a block of at most 256 pages the page bytes are the page numbers
  themselves. This holds for both programs.
\<close>

theorem scan_block_issues_in_order:
  fixes T :: "'d transport"
  shows "(\<forall>body \<in> {kvs3105_scan_side (logged T), kvss905c_scan_side host (logged T)}.
            scan_block body duplex block_size 0 0 w =
              retrieve_in_order body (page_side_order duplex (unat block_size)) w
          \<and> (\<forall>w'. scan_block body duplex block_size 0 0 w = Some (Inr w') \<longrightarrow>
                (\<exists>ns. length ns = length (issued_order duplex (unat block_size))
                   \<and> (\<forall>n \<in> set ns. 0 < fst n \<and> 0 < snd n)
                   \<and> issued w' = issued w @
                       concat (map (\<lambda>((page, q2), (polls, reads)). retrieval page q2 polls reads)
                         (zip (issued_order duplex (unat block_size)) ns)))))
       \<and> (unat block_size \<le> 256 \<longrightarrow>
            map (\<lambda>(page, q2). (unat page, q2)) (issued_order duplex (unat block_size))
            = map (\<lambda>(page, side). (unat page, if side \<noteq> 0 then 0x80 else 0))
                (page_side_order duplex (unat block_size)))"
proof (intro conjI ballI allI impI)
  fix body :: "u32 \<Rightarrow> int \<Rightarrow> ('d \<times> request list) world \<Rightarrow> (int + ('d \<times> request list) world) option"
  assume "body \<in> {kvs3105_scan_side (logged T), kvss905c_scan_side host (logged T)}"
  then have body: "\<exists>polls reads. 0 < polls \<and> 0 < reads \<and>
             issued v' = issued v @
               retrieval (ucast page) (if (of_int side :: u8) \<noteq> 0 then 0x80 else 0) polls reads"
    if "body page side v = Some (Inr v')" for page side v v'
    using that kvs3105_scan_side_issues [of T page side v v']
      kvss905c_scan_side_issues [of host T page side v v'] by auto
  show order: "scan_block body duplex block_size 0 0 w =
          retrieve_in_order body (page_side_order duplex (unat block_size)) w"
    by (rule scan_block_page_side_order)
  fix w'
  assume "scan_block body duplex block_size 0 0 w = Some (Inr w')"
  with order
  have "retrieve_in_order body (page_side_order duplex (unat block_size)) w = Some (Inr w')"
    by simp
  from retrieve_in_order_issues [of body, OF body this]
  show "\<exists>ns. length ns = length (issued_order duplex (unat block_size))
          \<and> (\<forall>n \<in> set ns. 0 < fst n \<and> 0 < snd n)
          \<and> issued w' = issued w @
              concat (map (\<lambda>((page, q2), (polls, reads)). retrieval page q2 polls reads)
                (zip (issued_order duplex (unat block_size)) ns))"
    unfolding issued_order_page_side_order
    by (simp add: issued_order_page_side_order [symmetric])
next
  assume "unat block_size \<le> 256"
  then show "map (\<lambda>(page, q2). (unat page, q2)) (issued_order duplex (unat block_size))
            = map (\<lambda>(page, side). (unat page, if side \<noteq> 0 then 0x80 else 0))
                (page_side_order duplex (unat block_size))"
    by (rule issued_order_exact)
qed

lemma ready_scanner_side:
  "kvs3105_scan_side (logged ready_scanner) page side w
   = Some (Inr \<lparr>requestsense = short_read_sense 0x32,
                device = ((), issued w @
                  retrieval (ucast page) (if (of_int side :: u8) \<noteq> 0 then 0x80 else 0) 1 1)\<rparr>)"
proof -
  let ?q2 = "if (of_int side :: u8) \<noteq> 0 then 0x80 else 0 :: u8"
  let ?w1 = "\<lparr>requestsense = requestsense w,
              device = ((), issued w @ [picture_size_request (ucast page) ?q2])\<rparr>"
  let ?w2 = "\<lparr>requestsense = requestsense w,
              device = ((), issued w @ [picture_size_request (ucast page) ?q2,
                                         buffer_status_request])\<rparr>"
  let ?w3 = "\<lparr>requestsense = short_read_sense 0x32,
              device = ((), issued w @ [picture_size_request (ucast page) ?q2,
                                         buffer_status_request,
                                         image_read_request (ucast page) ?q2])\<rparr>"
  have ps: "kvs3105_picture_size (logged ready_scanner) (ucast page) (of_int side) w
            = (Inr (be32_at (replicate 16 1) 0, be32_at (replicate 16 1) 4), ?w1)"
    by (simp add: kvs3105_picture_size_def kvs3105_read_def logged_def ready_scanner_def
        KVS3105_READ_PICTURE_ELEMENT_SIZE_def picture_size_request_def issued_def)
  have st: "get_data_buffer_status (logged ready_scanner) ?w1 = (Inr (1, 0x010101), ?w2)"
    by (simp add: get_data_buffer_status_def logged_def ready_scanner_def
        buffer_status_request_def issued_def)
  have wait: "kvs3105_data_buffer_wait (logged ready_scanner) ?w1 = Some (0, ?w2)"
    by (subst kvs3105_data_buffer_wait.simps) (simp add: st)
  have rd: "kvs3105_read_data (logged ready_scanner) (ucast page) (of_int side)
              KVS3105_BUFFER_SIZE ?w2 = (Inr (0xFFCE, 1), ?w3)"
    by (simp add: kvs3105_read_data_def kvs3105_read_def logged_def ready_scanner_def
        KVS3105_READ_IMAGE_def KVS3105_BUFFER_SIZE_def UNSAFE_MIN_def kMaxBuffer_def
        image_read_request_def issued_def be32_at_short_read_sense short_read_sense_0
        short_read_sense_2)
  have drain: "drain_page (kvs3105_read_data (logged ready_scanner) (ucast page) (of_int side)
                 KVS3105_BUFFER_SIZE) 0 [] ?w2 = Some (Inr 0xFFCE, [(0xFFCE, 1)], ?w3)"
    by (subst drain_page.simps) (simp add: rd)
  show ?thesis
    unfolding kvs3105_scan_side_def ps
    by (simp add: wait drain retrieval_def)
qed

lemma retrieve_in_order_ready:
  assumes body: "\<And>page side v. body page side v
           = Some (Inr \<lparr>requestsense = short_read_sense 0x32,
                device = ((), issued v @
                  retrieval (ucast page) (if (of_int side :: u8) \<noteq> 0 then 0x80 else 0) 1 1)\<rparr>)"
  shows "retrieve_in_order body order w
   = Some (Inr \<lparr>requestsense = (if order = [] then requestsense w else short_read_sense 0x32),
                device = ((), issued w @
                  concat (map (\<lambda>(page, q2). retrieval page q2 1 1)
                    (map (\<lambda>(page :: u32, side :: int).
                       (ucast page :: u8, if (of_int side :: u8) \<noteq> 0 then 0x80 else 0 :: u8))
                     order)))\<rparr>)"
proof (induction order arbitrary: w)
  case Nil
  show ?case by (cases w) (auto simp add: issued_def)
next
  case (Cons ps rest)
  obtain page side where ps: "ps = (page, side)" by (cases ps)
  let ?w1 = "\<lparr>requestsense = short_read_sense 0x32,
              device = ((), issued w @
                retrieval (ucast page) (if (of_int side :: u8) \<noteq> 0 then 0x80 else 0) 1 1)\<rparr>"
  have "retrieve_in_order body (ps # rest) w = retrieve_in_order body rest ?w1"
    unfolding ps by (simp add: body [of page side w])
  also note Cons.IH [of ?w1]
  finally show ?case
    unfolding ps by (simp add: issued_def)
qed

lemma ready_scanner_order:
  "retrieve_in_order (kvs3105_scan_side (logged ready_scanner)) order w
   = Some (Inr \<lparr>requestsense = (if order = [] then requestsense w else short_read_sense 0x32),
                device = ((), issued w @
                  concat (map (\<lambda>(page, q2). retrieval page q2 1 1)
                    (map (\<lambda>(page :: u32, side :: int).
                       (ucast page :: u8, if (of_int side :: u8) \<noteq> 0 then 0x80 else 0 :: u8))
                     order)))\<rparr>)"
  by (rule retrieve_in_order_ready) (rule ready_scanner_side)

lemma length_issued_order: "length (issued_order duplex k) = (if duplex \<noteq> 0 then 2 * k else k)"
  by (induction k) (auto simp add: issued_order_def)

lemma page_side_order_nonempty: "page_side_order duplex (Suc k) \<noteq> []"
  by (simp add: page_side_order_def)

lemma last_issued_order: "last (issued_order 1 (Suc k)) = (of_nat k, 0x80)"
  by (simp add: issued_order_def)

lemma last_page_side_order: "last (page_side_order 1 (Suc k)) = (of_nat k, 1)"
  by (simp add: page_side_order_def)

lemma length_retrievals:
  "length (concat (map (\<lambda>(page, q2). retrieval page q2 polls reads) order))
   = (1 + polls + reads) * length order"
  by (induction order) (auto simp add: retrieval_def)

lemma last_retrieval:
  "0 < reads \<Longrightarrow> last (retrieval page q2 polls reads) = image_read_request page q2"
  by (simp add: retrieval_def)

lemma retrievals_nonempty:
  "order \<noteq> [] \<Longrightarrow> concat (map (\<lambda>(page, q2). retrieval page q2 polls reads) order) \<noteq> []"
  by (cases order) (auto simp add: retrieval_def)

lemma last_retrievals:
  assumes "order \<noteq> []" and "0 < reads"
  shows "last (concat (map (\<lambda>(page, q2). retrieval page q2 polls reads) order))
         = image_read_request (fst (last order)) (snd (last order))"
  using assms(1)
proof (induction order rule: list_nonempty_induct)
  case (single x)
  with assms(2) show ?case by (cases x) (simp add: last_retrieval)
next
  case (cons x xs)
  from retrievals_nonempty [OF cons.hyps, of polls reads] cons.IH cons.hyps
  show ?case by (cases x) simp
qed

text \<open>
  C7, as stated: in a duplex block of 257 pages the last pair of the sequence is
  (256, back), but the retrievals of page 256 reach the device with page byte 0. With a
  scanner that has every side ready, the block completes after 1542 requests (three for
  each of the 514 sides) and the last of them is the image READ of page 0, back.
\<close>

theorem page_256_is_retrieved_as_page_0:
  "map_option (map_sum id (length \<circ> issued))
     (scan_block (kvs3105_scan_side (logged ready_scanner)) 1 257 0 0 quiet)
   = Some (Inr 1542)
   \<and> map_option (map_sum id (last \<circ> issued))
     (scan_block (kvs3105_scan_side (logged ready_scanner)) 1 257 0 0 quiet)
   = Some (Inr (image_read_request 0 0x80))
   \<and> last (page_side_order 1 257) = (256, 1)"
proof -
  have suc: "(257 :: nat) = Suc 256" by simp
  have ne: "page_side_order 1 257 \<noteq> []"
    using page_side_order_nonempty [of 1 256] by simp
  have "scan_block (kvs3105_scan_side (logged ready_scanner)) 1 257 0 0 quiet
        = retrieve_in_order (kvs3105_scan_side (logged ready_scanner)) (page_side_order 1 257) quiet"
    using scan_block_page_side_order
      [of "kvs3105_scan_side (logged ready_scanner)" 1 257 quiet] by simp
  then have run: "scan_block (kvs3105_scan_side (logged ready_scanner)) 1 257 0 0 quiet
   = Some (Inr \<lparr>requestsense = short_read_sense 0x32,
                device = ((), concat (map (\<lambda>(page, q2). retrieval page q2 1 1)
                                       (issued_order 1 257)))\<rparr>)"
    by (simp add: ready_scanner_order ne issued_order_page_side_order quiet_def issued_def)
  have len: "length (issued_order 1 257) = 514"
    by (simp add: length_issued_order)
  then have ne': "issued_order 1 257 \<noteq> []" by auto
  have l1: "last (issued_order 1 257) = (0, 0x80)"
    unfolding suc last_issued_order by simp
  have l2: "last (page_side_order 1 257) = (256, 1)"
    unfolding suc last_page_side_order by simp
  show ?thesis
    unfolding run
    by (simp add: issued_def length_retrievals last_retrievals [OF ne'] len l1 l2)
qed

lemma upt_0_2: "[0..<2] = [0, 1]"
  by (simp add: upt_rec)

theorem scan_block_issues_in_order_witness:
  "scan_block (kvs3105_scan_side (logged ready_scanner)) 1 2 0 0 quiet
   = Some (Inr \<lparr>requestsense = short_read_sense 0x32,
                device = ((), retrieval 0 0 1 1 @ retrieval 0 0x80 1 1 @
                              retrieval 1 0 1 1 @ retrieval 1 0x80 1 1)\<rparr>)
   \<and> (\<exists>ns. length ns = 4
         \<and> retrieval 0 0 1 1 @ retrieval 0 0x80 1 1 @ retrieval 1 0 1 1 @ retrieval 1 0x80 1 1
           = concat (map (\<lambda>((page, q2), (polls, reads)). retrieval page q2 polls reads)
               (zip [(0, 0), (0, 0x80), (1, 0), (1, 0x80)] ns)))
   \<and> map (\<lambda>(page, side). (unat page, if side \<noteq> 0 then 0x80 else 0 :: u8)) (page_side_order 1 2)
     = [(0, 0), (0, 0x80), (1, 0), (1, 0x80)]"
proof -
  have order: "issued_order 1 2 = [(0, 0), (0, 0x80), (1, 0), (1, 0x80)]"
    by (simp add: issued_order_def upt_0_2)
  have ne: "page_side_order 1 2 \<noteq> []"
    using page_side_order_nonempty [of 1 1] by (simp add: numeral_2_eq_2)
  have "scan_block (kvs3105_scan_side (logged ready_scanner)) 1 2 0 0 quiet
        = retrieve_in_order (kvs3105_scan_side (logged ready_scanner)) (page_side_order 1 2) quiet"
    using scan_block_page_side_order
      [of "kvs3105_scan_side (logged ready_scanner)" 1 2 quiet] by simp
  then have run: "scan_block (kvs3105_scan_side (logged ready_scanner)) 1 2 0 0 quiet
   = Some (Inr \<lparr>requestsense = short_read_sense 0x32,
                device = ((), retrieval 0 0 1 1 @ retrieval 0 0x80 1 1 @
                              retrieval 1 0 1 1 @ retrieval 1 0x80 1 1)\<rparr>)"
    by (simp add: ready_scanner_order ne issued_order_page_side_order quiet_def issued_def order)
  from scan_block_issues_in_order [of ready_scanner BigEndian 1 2 quiet] run
  obtain ns where len: "length ns = length (issued_order 1 (unat (2 :: u32)))"
    and eq: "issued \<lparr>requestsense = short_read_sense 0x32,
                device = ((), retrieval 0 0 1 1 @ retrieval 0 0x80 1 1 @
                              retrieval 1 0 1 1 @ retrieval 1 0x80 1 1)\<rparr>
            = issued quiet @
              concat (map (\<lambda>((page, q2), (polls, reads)). retrieval page q2 polls reads)
                (zip (issued_order 1 (unat (2 :: u32))) ns))"
    by blast
  have len4: "length ns = 4"
    using len by (simp add: order)
  have eq4: "retrieval 0 0 1 1 @ retrieval 0 0x80 1 1 @ retrieval 1 0 1 1 @ retrieval 1 0x80 1 1
           = concat (map (\<lambda>((page, q2), (polls, reads)). retrieval page q2 polls reads)
               (zip [(0, 0), (0, 0x80), (1, 0), (1, 0x80)] ns))"
    using eq by (simp add: order issued_def quiet_def)
  from len4 eq4 have sent: "\<exists>ns. length ns = 4
         \<and> retrieval 0 0 1 1 @ retrieval 0 0x80 1 1 @ retrieval 1 0 1 1 @ retrieval 1 0x80 1 1
           = concat (map (\<lambda>((page, q2), (polls, reads)). retrieval page q2 polls reads)
               (zip [(0, 0), (0, 0x80), (1, 0), (1, 0x80)] ns))"
    by blast
  have pages: "map (\<lambda>(page, side). (unat page, if side \<noteq> 0 then 0x80 else 0 :: u8))
                 (page_side_order 1 2) = [(0, 0), (0, 0x80), (1, 0), (1, 0x80)]"
    by (simp add: page_side_order_def upt_0_2)
  from run sent pages show ?thesis by simp
qed

section \<open>Draining a page\<close>

lemma image_read_is_request:
  "kvs3105_read T KVS3105_READ_IMAGE page q2 0x10000 w = T (image_read_request page q2) w"
  "kvss905c_read T 0 page q2 0x10000 w = T (image_read_request page q2) w"
  unfolding kvs3105_read_def kvss905c_read_def KVS3105_READ_IMAGE_def
  by (rule arg_cong [where f = "\<lambda>req. T req w"], simp add: image_read_request_def)+

lemma chunk_minus_residual:
  assumes "n \<le> 65536"
  shows "(0x10000 :: u32) - of_nat (65536 - n) = of_nat n"
  using assms by (simp add: of_nat_diff)

lemma kvs3105_read_data_good:
  assumes "T (image_read_request page (if back \<noteq> 0 then 0x80 else 0)) w = ((0, buffer), w')"
  shows "kvs3105_read_data T page back 0x10000 w = (Inr (0x10000, 0), w')"
  using assms
  by (simp add: kvs3105_read_data_def image_read_is_request UNSAFE_MIN_def kMaxBuffer_def)

lemma kvs3105_read_data_short:
  assumes "T (image_read_request page (if back \<noteq> 0 then 0x80 else 0)) w = ((r, buffer), w')"
    and "r \<noteq> 0" and "short_read w' (65536 - n)" and "n \<le> 65536"
  shows "kvs3105_read_data T page back 0x10000 w = (Inr (of_nat n, 1), w')"
  using assms
  by (simp add: kvs3105_read_data_def image_read_is_request UNSAFE_MIN_def kMaxBuffer_def
      short_read_def chunk_minus_residual)

lemma kvss905c_read_data_good:
  assumes "T (image_read_request page (if back \<noteq> 0 then 0x80 else 0)) w = ((0, buffer), w')"
  shows "kvss905c_read_data T page back 0x10000 w = (Inr (0x10000, 0), w')"
  using assms
  by (simp add: kvss905c_read_data_def image_read_is_request UNSAFE_MIN_def kMaxBuffer_def)

lemma kvss905c_read_data_short:
  assumes "T (image_read_request page (if back \<noteq> 0 then 0x80 else 0)) w = ((r, buffer), w')"
    and "r \<noteq> 0" and "short_read w' (65536 - n)" and "n \<le> 65536"
  shows "kvss905c_read_data T page back 0x10000 w = (Inr (of_nat n, 1), w')"
  using assms
  by (simp add: kvss905c_read_data_def image_read_is_request UNSAFE_MIN_def kMaxBuffer_def
      short_read_def chunk_minus_residual)

lemma drain_page_chunks:
  fixes left :: "'d world \<Rightarrow> nat"
  assumes full: "\<And>v. 65536 < left v \<Longrightarrow>
            \<exists>v'. rd v = (Inr (0x10000, 0), v') \<and> left v' = left v - 65536"
    and short: "\<And>v. left v < 65536 \<Longrightarrow> \<exists>v'. rd v = (Inr (of_nat (left v), 1), v')"
    and exact: "\<And>v. left v = 65536 \<Longrightarrow>
            (\<exists>v'. rd v = (Inr (0x10000, 0), v') \<and> left v' = 0) \<or>
            (\<exists>v'. rd v = (Inr (0x10000, 1), v'))"
  shows "left w = n \<Longrightarrow>
         \<exists>k l w'. drain_page rd acc reads w
                    = Some (Inr (acc + of_nat n),
                            reads @ replicate k (0x10000, 0) @ [(of_nat l, 1)], w')
                  \<and> k * 65536 + l = n \<and> l \<le> 65536"
proof (induction n arbitrary: w acc reads rule: less_induct)
  case (less n)
  have more: "\<exists>k l w'. drain_page rd acc reads w
                    = Some (Inr (acc + of_nat n),
                            reads @ replicate k (0x10000, 0) @ [(of_nat l, 1)], w')
                  \<and> k * 65536 + l = n \<and> l \<le> 65536"
    if rd: "rd w = (Inr (0x10000, 0), w1)" and w1: "left w1 = n - 65536" and n: "65536 \<le> n"
    for w1
  proof -
    from n have lt: "n - 65536 < n" by simp
    from less.IH [OF lt w1, of "acc + 0x10000" "reads @ [(0x10000, 0)]"]
    obtain k l w' where
      d: "drain_page rd (acc + 0x10000) (reads @ [(0x10000, 0)]) w1
          = Some (Inr (acc + 0x10000 + of_nat (n - 65536)),
                  (reads @ [(0x10000, 0)]) @ replicate k (0x10000, 0) @ [(of_nat l, 1)], w')"
      and kl: "k * 65536 + l = n - 65536" "l \<le> 65536"
      by blast
    have sum: "acc + 0x10000 + of_nat (n - 65536) = acc + (of_nat n :: u32)"
      using n by (simp add: of_nat_diff)
    have "drain_page rd acc reads w
          = Some (Inr (acc + of_nat n),
                  reads @ replicate (Suc k) (0x10000, 0) @ [(of_nat l, 1)], w')"
      by (subst drain_page.simps) (simp add: rd d sum)
    moreover from kl n have "Suc k * 65536 + l = n" by simp
    ultimately show ?thesis using kl(2) by blast
  qed
  have stop: "\<exists>k l w'. drain_page rd acc reads w
                    = Some (Inr (acc + of_nat n),
                            reads @ replicate k (0x10000, 0) @ [(of_nat l, 1)], w')
                  \<and> k * 65536 + l = n \<and> l \<le> 65536"
    if rd: "rd w = (Inr (of_nat n, 1), w1)" and n: "n \<le> 65536" for w1
  proof -
    have "drain_page rd acc reads w
          = Some (Inr (acc + of_nat n), reads @ replicate 0 (0x10000, 0) @ [(of_nat n, 1)], w1)"
      by (subst drain_page.simps) (simp add: rd)
    moreover have "0 * 65536 + n = n" by simp
    ultimately show ?thesis using n by blast
  qed
  consider "65536 < n" | "n < 65536" | "n = 65536" by linarith
  then show ?case
  proof cases
    case 1
    with full [of w] less.prems obtain w1 where
      "rd w = (Inr (0x10000, 0), w1)" "left w1 = n - 65536" by auto
    with 1 show ?thesis by (intro more) simp_all
  next
    case 2
    with short [of w] less.prems obtain w1 where "rd w = (Inr (of_nat n, 1), w1)" by auto
    with 2 show ?thesis by (intro stop) simp_all
  next
    case 3
    with exact [of w] less.prems consider
      w1 where "rd w = (Inr (0x10000, 0), w1)" "left w1 = 0"
      | w1 where "rd w = (Inr (0x10000, 1), w1)" by auto
    then show ?thesis
    proof cases
      case 1
      with 3 show ?thesis by (intro more [of w1]) simp_all
    next
      case 2
      with 3 have "rd w = (Inr (of_nat n, 1), w1)" by simp
      with 3 show ?thesis by (intro stop) simp_all
    qed
  qed
qed

lemma chunks_shape:
  fixes reads :: "(u32 \<times> u8) list"
  assumes kl: "k * 65536 + l = N" and l: "l \<le> 65536" and N: "0 < N"
    and reads: "reads = replicate k (0x10000, 0) @ [(of_nat l, 1)]"
  shows "sum_list (map (\<lambda>r. unat (fst r)) reads) = N
       \<and> butlast reads = replicate (length reads - 1) (0x10000, 0)
       \<and> snd (last reads) = 1
       \<and> (if 65536 dvd N
          then (length reads = N div 65536 \<and> fst (last reads) = 0x10000) \<or>
               (length reads = N div 65536 + 1 \<and> fst (last reads) = 0)
          else length reads = (N + 65535) div 65536 \<and> unat (fst (last reads)) = N mod 65536)"
proof -
  have ul: "unat (of_nat l :: u32) = l"
    using l by (simp add: unat_of_nat)
  have a: "sum_list (map (\<lambda>r. unat (fst r)) reads) = N"
    using kl by (simp add: reads sum_list_replicate o_def ul)
  have b: "butlast reads = replicate (length reads - 1) (0x10000, 0)"
    and c: "snd (last reads) = 1"
    and len: "length reads = Suc k"
    and lst: "fst (last reads) = of_nat l"
    by (simp_all add: reads)
  have d: "(length reads = N div 65536 \<and> fst (last reads) = 0x10000) \<or>
           (length reads = N div 65536 + 1 \<and> fst (last reads) = 0)" if dvd: "65536 dvd N"
  proof -
    from dvd kl have "65536 dvd l"
      by (metis dvd_add_right_iff dvd_triv_right)
    with l have "l = 0 \<or> l = 65536"
      by (auto elim!: dvdE)
    then show ?thesis
    proof
      assume "l = 0"
      with kl have "N div 65536 = k" by auto
      with \<open>l = 0\<close> len lst show ?thesis by simp
    next
      assume l': "l = 65536"
      with kl have "N = Suc k * 65536" by simp
      then have "N div 65536 = Suc k" by simp
      with l' len lst show ?thesis by simp
    qed
  qed
  have e: "length reads = (N + 65535) div 65536 \<and> unat (fst (last reads)) = N mod 65536"
    if ndvd: "\<not> 65536 dvd N"
  proof -
    from ndvd kl have "\<not> 65536 dvd l"
      by (metis dvd_add_right_iff dvd_triv_right)
    then have "l \<noteq> 0" "l \<noteq> 65536"
      using dvd_0_right [of "65536 :: nat"] dvd_refl [of "65536 :: nat"] by metis+
    with l have l': "0 < l" "l < 65536" by simp_all
    with kl have md: "N mod 65536 = l" and dv: "N div 65536 = k" by auto
    have "N + 65535 = (l - 1) + Suc k * 65536" using kl l' by simp
    then have "(N + 65535) div 65536 = Suc k + (l - 1) div 65536"
      by (simp only: div_mult_self1)
    with l' have "(N + 65535) div 65536 = Suc k" by simp
    with len lst md ul show ?thesis by simp
  qed
  from a b c d e show ?thesis by simp
qed

lemma drain_page_served:
  fixes T :: "'d transport" and left :: "'d world \<Rightarrow> nat"
  assumes good: "\<And>v buffer v'.
            T (image_read_request page (if side \<noteq> 0 then 0x80 else 0)) v = ((0, buffer), v')
            \<Longrightarrow> rd v = (Inr (0x10000, 0), v')"
    and bad: "\<And>v r buffer v' n.
            T (image_read_request page (if side \<noteq> 0 then 0x80 else 0)) v = ((r, buffer), v')
            \<Longrightarrow> r \<noteq> 0 \<Longrightarrow> short_read v' (65536 - n) \<Longrightarrow> n \<le> 65536
            \<Longrightarrow> rd v = (Inr (of_nat n, 1), v')"
    and serves: "serves_page T left page (if side \<noteq> 0 then 0x80 else 0)"
    and N: "0 < left w"
  shows "\<exists>reads w'. drain_page rd 0 [] w = Some (Inr (of_nat (left w)), reads, w')
       \<and> sum_list (map (\<lambda>r. unat (fst r)) reads) = left w
       \<and> butlast reads = replicate (length reads - 1) (0x10000, 0)
       \<and> snd (last reads) = 1
       \<and> (if 65536 dvd left w
          then (length reads = left w div 65536 \<and> fst (last reads) = 0x10000) \<or>
               (length reads = left w div 65536 + 1 \<and> fst (last reads) = 0)
          else length reads = (left w + 65535) div 65536 \<and>
               unat (fst (last reads)) = left w mod 65536)"
proof -
  let ?req = "image_read_request page (if side \<noteq> 0 then 0x80 else 0)"
  have answer: "case T ?req v of
        ((r, buffer), v') \<Rightarrow>
          if 65536 < left v then r = 0 \<and> left v' = left v - 65536
          else if left v < 65536 then r \<noteq> 0 \<and> short_read v' (65536 - left v)
          else (r = 0 \<and> left v' = 0) \<or> (r \<noteq> 0 \<and> short_read v' 0)" for v
    using serves unfolding serves_page_def by (rule spec)
  have full: "\<exists>v'. rd v = (Inr (0x10000, 0), v') \<and> left v' = left v - 65536"
    if "65536 < left v" for v
  proof -
    obtain r buffer v' where t: "T ?req v = ((r, buffer), v')"
      by (metis surj_pair)
    with answer [of v] that have "r = 0" "left v' = left v - 65536" by simp_all
    with t good [of v buffer v'] show ?thesis by simp
  qed
  have short: "\<exists>v'. rd v = (Inr (of_nat (left v), 1), v')" if "left v < 65536" for v
  proof -
    obtain r buffer v' where t: "T ?req v = ((r, buffer), v')"
      by (metis surj_pair)
    with answer [of v] that have "r \<noteq> 0" "short_read v' (65536 - left v)" by simp_all
    with t bad [of v r buffer v' "left v"] that show ?thesis by simp
  qed
  have exact: "(\<exists>v'. rd v = (Inr (0x10000, 0), v') \<and> left v' = 0) \<or>
               (\<exists>v'. rd v = (Inr (0x10000, 1), v'))" if "left v = 65536" for v
  proof -
    obtain r buffer v' where t: "T ?req v = ((r, buffer), v')"
      by (metis surj_pair)
    with answer [of v] that consider "r = 0" "left v' = 0" | "r \<noteq> 0" "short_read v' 0"
      by auto
    then show ?thesis
    proof cases
      case 1
      with t good [of v buffer v'] show ?thesis by simp
    next
      case 2
      with t bad [of v r buffer v' 65536] show ?thesis by simp
    qed
  qed
  from drain_page_chunks [of left rd w "left w" 0 "[]", OF full short exact]
  obtain k l w' where
    d: "drain_page rd 0 [] w
        = Some (Inr (of_nat (left w)), replicate k (0x10000, 0) @ [(of_nat l, 1)], w')"
    and kl: "k * 65536 + l = left w" "l \<le> 65536"
    by auto
  from chunks_shape [OF kl N refl] d show ?thesis by blast
qed

text \<open>
  C1, amended. Let the device answer the image reads of a side as section 4.4 describes
  (\<open>serves_page\<close>), with N > 0 bytes of the side left. Then draining the side by repeated
  calls of \<^verbatim>\<open>kvs3105_read_data\<close> or \<^verbatim>\<open>kvss905c_read_data\<close> with a 64 KiB buffer returns, and
  the byte counts of the reads sum to exactly N. Every read but the last returns 0x10000
  bytes without end-of-page; the last read alone reports end-of-page, at which the loop
  stops. When 65536 does not divide N there are exactly \<open>\<lceil>N / 65536\<rceil>\<close> reads and the last
  returns the \<open>N mod 65536\<close> bytes that are left. When 65536 divides N the last read is not
  a short chunk of data: either there are \<open>N / 65536\<close> reads and the last is a full chunk
  reported together with end-of-page, or there are \<open>N / 65536 + 1\<close> reads and the last is
  empty, according to how the device answers a read of exactly what is left.
\<close>

theorem drain_page_chunked:
  fixes T :: "'d transport" and left :: "'d world \<Rightarrow> nat"
  assumes "serves_page T left page (if side \<noteq> 0 then 0x80 else 0)" and "0 < left w"
  shows "\<forall>read_data \<in> {kvs3105_read_data T page side KVS3105_BUFFER_SIZE,
                        kvss905c_read_data T page side KVSS905C_BUFFER_SIZE}.
     \<exists>reads w'. drain_page read_data 0 [] w = Some (Inr (of_nat (left w)), reads, w')
       \<and> sum_list (map (\<lambda>r. unat (fst r)) reads) = left w
       \<and> butlast reads = replicate (length reads - 1) (0x10000, 0)
       \<and> snd (last reads) = 1
       \<and> (if 65536 dvd left w
          then (length reads = left w div 65536 \<and> fst (last reads) = 0x10000) \<or>
               (length reads = left w div 65536 + 1 \<and> fst (last reads) = 0)
          else length reads = (left w + 65535) div 65536 \<and>
               unat (fst (last reads)) = left w mod 65536)"
proof -
  let ?req = "image_read_request page (if side \<noteq> 0 then 0x80 else 0)"
  let ?usb = "kvs3105_read_data T page side KVS3105_BUFFER_SIZE"
  let ?sg = "kvss905c_read_data T page side KVSS905C_BUFFER_SIZE"
  have g1: "?usb v = (Inr (0x10000, 0), v')" if "T ?req v = ((0, buffer), v')" for v buffer v'
    using that unfolding KVS3105_BUFFER_SIZE_def by (rule kvs3105_read_data_good)
  have b1: "?usb v = (Inr (of_nat n, 1), v')"
    if "T ?req v = ((r, buffer), v')" "r \<noteq> 0" "short_read v' (65536 - n)" "n \<le> 65536"
    for v r buffer v' n
    using that unfolding KVS3105_BUFFER_SIZE_def by (rule kvs3105_read_data_short)
  have g2: "?sg v = (Inr (0x10000, 0), v')" if "T ?req v = ((0, buffer), v')" for v buffer v'
    using that unfolding KVSS905C_BUFFER_SIZE_def by (rule kvss905c_read_data_good)
  have b2: "?sg v = (Inr (of_nat n, 1), v')"
    if "T ?req v = ((r, buffer), v')" "r \<noteq> 0" "short_read v' (65536 - n)" "n \<le> 65536"
    for v r buffer v' n
    using that unfolding KVSS905C_BUFFER_SIZE_def by (rule kvss905c_read_data_short)
  note usb = drain_page_served [of T page side ?usb left w, OF g1 b1 assms]
  note sg = drain_page_served [of T page side ?sg left w, OF g2 b2 assms]
  from usb sg show ?thesis by simp
qed

lemma short_read_short_read_sense:
  "x = of_nat residual \<Longrightarrow>
   short_read \<lparr>requestsense = short_read_sense x, device = d\<rparr> residual"
  by (simp add: short_read_def be32_at_short_read_sense short_read_sense_0 short_read_sense_2)

lemma page_device_serves_page: "serves_page (page_device fit) device page q2"
proof -
  have "case page_device fit (image_read_request page q2) w of
        ((r, buffer), w') \<Rightarrow>
          if 65536 < device w then r = 0 \<and> device w' = device w - 65536
          else if device w < 65536 then r \<noteq> 0 \<and> short_read w' (65536 - device w)
          else (r = 0 \<and> device w' = 0) \<or> (r \<noteq> 0 \<and> short_read w' 0)" for w
    by (cases w)
       (auto simp add: page_device_def image_read_request_def of_nat_diff
          intro!: short_read_short_read_sense)
  then show ?thesis unfolding serves_page_def by blast
qed

lemma read_page_device_good:
  assumes "65536 < n \<or> (n = 65536 \<and> fit = NextReadEmpty)"
  shows "kvs3105_read_data (page_device fit) page side KVS3105_BUFFER_SIZE
           \<lparr>requestsense = rs, device = n\<rparr>
         = (Inr (0x10000, 0), \<lparr>requestsense = rs, device = n - 65536\<rparr>)"
  unfolding KVS3105_BUFFER_SIZE_def
  by (rule kvs3105_read_data_good [where buffer = "[]"])
     (use assms in \<open>auto simp add: page_device_def image_read_request_def\<close>)

lemma read_page_device_short:
  assumes "n < 65536 \<or> (n = 65536 \<and> fit = EndsPage)"
  shows "kvs3105_read_data (page_device fit) page side KVS3105_BUFFER_SIZE
           \<lparr>requestsense = rs, device = n\<rparr>
         = (Inr (of_nat n, 1),
            \<lparr>requestsense = short_read_sense (of_nat (65536 - n)), device = 0\<rparr>)"
  unfolding KVS3105_BUFFER_SIZE_def
  by (rule kvs3105_read_data_short [where buffer = "[]" and r = 2])
     (use assms in \<open>auto simp add: page_device_def image_read_request_def of_nat_diff
        intro!: short_read_short_read_sense\<close>)

text \<open>
  C1, as stated: a page of exactly 64 KiB should be drained by one read that is short
  and reports end-of-page. With a device that reports end-of-medium on the read that
  empties it, the single read returns the full 0x10000 bytes together with end-of-page
  (residual 0). With a device that reports it on the read after, there are two reads, a
  full chunk and an empty one. Neither is one short read.
\<close>

theorem drain_page_of_one_full_chunk:
  "drain_page (kvs3105_read_data (page_device EndsPage) 0 0 KVS3105_BUFFER_SIZE) 0 []
      \<lparr>requestsense = replicate 20 0, device = 65536\<rparr>
   = Some (Inr 0x10000, [(0x10000, 1)], \<lparr>requestsense = short_read_sense 0, device = 0\<rparr>)
   \<and> drain_page (kvs3105_read_data (page_device NextReadEmpty) 0 0 KVS3105_BUFFER_SIZE) 0 []
      \<lparr>requestsense = replicate 20 0, device = 65536\<rparr>
   = Some (Inr 0x10000, [(0x10000, 0), (0, 1)],
           \<lparr>requestsense = short_read_sense 0x10000, device = 0\<rparr>)"
proof
  show "drain_page (kvs3105_read_data (page_device EndsPage) 0 0 KVS3105_BUFFER_SIZE) 0 []
      \<lparr>requestsense = replicate 20 0, device = 65536\<rparr>
   = Some (Inr 0x10000, [(0x10000, 1)], \<lparr>requestsense = short_read_sense 0, device = 0\<rparr>)"
    by (subst drain_page.simps) (simp add: read_page_device_short)
  have second: "drain_page (kvs3105_read_data (page_device NextReadEmpty) 0 0 KVS3105_BUFFER_SIZE)
        0x10000 [(0x10000, 0)] \<lparr>requestsense = replicate 20 0, device = 0\<rparr>
     = Some (Inr 0x10000, [(0x10000, 0), (0, 1)],
           \<lparr>requestsense = short_read_sense 0x10000, device = 0\<rparr>)"
    by (subst drain_page.simps) (simp add: read_page_device_short)
  show "drain_page (kvs3105_read_data (page_device NextReadEmpty) 0 0 KVS3105_BUFFER_SIZE) 0 []
      \<lparr>requestsense = replicate 20 0, device = 65536\<rparr>
   = Some (Inr 0x10000, [(0x10000, 0), (0, 1)],
           \<lparr>requestsense = short_read_sense 0x10000, device = 0\<rparr>)"
    by (subst drain_page.simps) (simp add: read_page_device_good second)
qed

lemma replicate_two: "replicate 2 x = [x, x]"
  by (simp add: numeral_2_eq_2)

theorem drain_page_chunked_witness:
  "\<exists>reads w'.
     drain_page (kvs3105_read_data (page_device EndsPage) 0 0 KVS3105_BUFFER_SIZE) 0 []
       \<lparr>requestsense = replicate 20 0, device = 150000\<rparr> = Some (Inr 150000, reads, w')
     \<and> sum_list (map (\<lambda>r. unat (fst r)) reads) = 150000
     \<and> length reads = 3
     \<and> butlast reads = [(0x10000, 0), (0x10000, 0)]
     \<and> unat (fst (last reads)) = 18928
     \<and> snd (last reads) = 1"
proof -
  let ?w = "\<lparr>requestsense = replicate 20 0, device = 150000 :: nat\<rparr>"
  have pos: "0 < device ?w" by simp
  from drain_page_chunked [of "page_device EndsPage" device 0 0 ?w,
      OF page_device_serves_page pos]
  obtain reads w' where
    d: "drain_page (kvs3105_read_data (page_device EndsPage) 0 0 KVS3105_BUFFER_SIZE) 0 [] ?w
        = Some (Inr (of_nat (device ?w)), reads, w')"
    and s: "sum_list (map (\<lambda>r. unat (fst r)) reads) = device ?w"
    and b: "butlast reads = replicate (length reads - 1) (0x10000, 0)"
    and e: "snd (last reads) = 1"
    and l: "if 65536 dvd device ?w
          then (length reads = device ?w div 65536 \<and> fst (last reads) = 0x10000) \<or>
               (length reads = device ?w div 65536 + 1 \<and> fst (last reads) = 0)
          else length reads = (device ?w + 65535) div 65536 \<and>
               unat (fst (last reads)) = device ?w mod 65536"
    by blast
  from l have len: "length reads = 3" and lst: "unat (fst (last reads)) = 18928"
    by simp_all
  from b len have "butlast reads = [(0x10000, 0), (0x10000, 0)]"
    by (simp add: replicate_two)
  with d s e len lst show ?thesis by simp
qed

section \<open>The window record\<close>

lemma ucast_or_u8: "(ucast (x OR y :: u32) :: u8) = ucast x OR ucast y"
  by (rule bit_word_eqI) (simp add: bit_or_iff bit_ucast_iff)

lemma ucast_push_promote: "(ucast (push_bit n (promote a)) :: u8) = push_bit n a"
  unfolding promote_def
  apply (rule bit_word_eqI)
  apply (simp add: bit_push_bit_iff bit_ucast_iff)
  apply (auto dest: bit8)
  done

lemma ucast_promote: "(ucast (promote a) :: u8) = a"
  using ucast_push_promote [of 0 a] by simp

lemma ucast_promote_double: "(ucast (promote a * 2) :: u8) = a * 2"
  using ucast_push_promote [of 1 a] by simp

lemma kvs3105_window_serialise_returns:
  "snd (kvs3105_window_serialise output window) = 64"
  by (simp add: kvs3105_window_serialise_def U8I_def U8_def U16_def U32_def SKIP_def)

lemma kvss905c_window_serialise_returns:
  "snd (kvss905c_window_serialise output window) = 64"
  by (simp add: kvss905c_window_serialise_def U8I_def U8_def U16_def U32_def SKIP_def)

lemma kvs3105_window_serialise_length:
  "length (fst (kvs3105_window_serialise output window)) = length output"
  by (simp add: kvs3105_window_serialise_def U8I_def U8_def U16_def U32_def SKIP_def)

lemma kvs3105_window_serialise_flags:
  assumes "length output = 64"
  shows "fst (kvs3105_window_serialise output window) ! 41
           = push_bit 7 (flatbed window) OR push_bit 4 (stop_on_skew window) OR
             push_bit 3 (disable_buffering window) OR continue_on_double_feed window"
    and "fst (kvs3105_window_serialise output window) ! 56
           = push_bit 7 (ahead_disable window) OR push_bit 5 (deskew window) OR
             push_bit 4 (double_feed_detector window) OR push_bit 2 (full_size_scan window) OR
             push_bit 1 (feed_slow window) OR remove_shadow window"
  using assms
  by (simp_all add: kvs3105_window_serialise_def U8I_def U8_def U16_def U32_def SKIP_def
      ucast_or_u8 ucast_push_promote ucast_promote ucast_promote_double)

lemma kvs3105_window_serialise_gap:
  assumes "34 \<le> i" "i < 40"
  shows "fst (kvs3105_window_serialise output window) ! i = output ! i"
  using assms
  by (simp add: kvs3105_window_serialise_def U8I_def U8_def U16_def U32_def SKIP_def)


lemma kvss905c_window_serialise_length:
  "length (fst (kvss905c_window_serialise output window)) = length output"
  by (simp add: kvss905c_window_serialise_def U8I_def U8_def U16_def U32_def SKIP_def)

lemma kvss905c_window_serialise_flags:
  assumes "length output = 64"
  shows "fst (kvss905c_window_serialise output window) ! 41
           = push_bit 7 (flatbed window) OR push_bit 4 (stop_on_skew window) OR
             push_bit 3 (disable_buffering window) OR continue_on_double_feed window"
    and "fst (kvss905c_window_serialise output window) ! 56
           = push_bit 7 (ahead_disable window) OR push_bit 5 (deskew window) OR
             push_bit 4 (double_feed_detector window) OR push_bit 2 (full_size_scan window) OR
             push_bit 1 (feed_slow window) OR remove_shadow window"
  using assms
  by (simp_all add: kvss905c_window_serialise_def U8I_def U8_def U16_def U32_def SKIP_def
      ucast_or_u8 ucast_push_promote ucast_promote ucast_promote_double)

lemma kvss905c_window_serialise_gap:
  assumes "34 \<le> i" "i < 40"
  shows "fst (kvss905c_window_serialise output window) ! i = output ! i"
  using assms
  by (simp add: kvss905c_window_serialise_def U8I_def U8_def U16_def U32_def SKIP_def)

lemma kvs3105_set_windows_never_aborts:
  "kvs3105_set_windows T window duplex w \<noteq> Inl Abort"
  by (simp add: kvs3105_set_windows_def Let_def split_beta
      kvs3105_window_serialise_returns WINDOW_SIZE_def)

lemma kvss905c_set_windows_never_aborts:
  "kvss905c_set_windows T window duplex w \<noteq> Inl Abort"
  by (simp add: kvss905c_set_windows_def Let_def split_beta
      kvss905c_window_serialise_returns WINDOW_SIZE_def)

lemma kvs3105_sent_windows:
  "sent_windows (kvs3105_set_windows recorder window duplex \<lparr>requestsense = rs, device = []\<rparr>)
   = (let front = (replicate 8 0 @ fst (kvs3105_window_serialise (replicate 64 0) window))
                    [6 := 0, 7 := 64]
      in if duplex \<noteq> 0 then [front, front[8 := 0x80]] else [front])"
  by (simp add: kvs3105_set_windows_def Let_def split_beta sent_windows_def recorder_def
      kvs3105_window_serialise_returns WINDOW_SIZE_def)

text \<open>
  C3. For every window configuration (and every output buffer) the serialisers return
  exactly 64, so \<^verbatim>\<open>set_windows\<close> never takes its \<^verbatim>\<open>abort()\<close> branch, whatever the device
  answers.
\<close>

theorem window_serialise_returns_64:
  "snd (kvs3105_window_serialise output window) = WINDOW_SIZE
   \<and> snd (kvss905c_window_serialise output window) = WINDOW_SIZE
   \<and> kvs3105_set_windows T window duplex w \<noteq> Inl Abort
   \<and> kvss905c_set_windows T window duplex w \<noteq> Inl Abort"
  by (simp add: kvs3105_window_serialise_returns kvss905c_window_serialise_returns
      kvs3105_set_windows_never_aborts kvss905c_set_windows_never_aborts WINDOW_SIZE_def)

lemma kvss905c_sent_windows:
  "sent_windows (kvss905c_set_windows recorder window duplex \<lparr>requestsense = rs, device = []\<rparr>)
   = (let front = (replicate 8 0 @ fst (kvss905c_window_serialise (replicate 64 0) window))
                    [6 := 0, 7 := 64]
      in if duplex \<noteq> 0 then [front, front[8 := 0x80]] else [front])"
  by (simp add: kvss905c_set_windows_def Let_def split_beta sent_windows_def recorder_def
      kvss905c_window_serialise_returns WINDOW_SIZE_def)

lemma window_bytes_layout:
  assumes len: "length (body :: u8 list) = 64"
    and f41: "body ! 41 = a" and f56: "body ! 56 = b"
    and gap: "\<And>i. 34 \<le> i \<Longrightarrow> i < 40 \<Longrightarrow> body ! i = 0"
    and mem: "bytes = (replicate 8 0 @ body)[6 := 0, 7 := 64]
              \<or> bytes = (replicate 8 0 @ body)[6 := 0, 7 := 64, 8 := 0x80]"
  shows "length bytes = 72 \<and> bytes ! 49 = a \<and> bytes ! 64 = b
         \<and> take 6 (drop 42 bytes) = replicate 6 0"
proof -
  have n: "bytes ! (8 + i) = body ! i" if "0 < i" "i < 64" for i
    using mem that len by (auto simp add: nth_append)
  have "take 6 (drop 42 bytes) = replicate 6 0"
  proof (rule nth_equalityI)
    show "length (take 6 (drop 42 bytes)) = length (replicate 6 (0 :: u8))"
      using mem len by auto
  next
    fix i assume "i < length (take 6 (drop 42 bytes))"
    then have i: "i < 6" by simp
    have "take 6 (drop 42 bytes) ! i = body ! (34 + i)"
      using i mem len by (auto simp add: nth_append)
    also have "\<dots> = 0" using i by (intro gap) simp_all
    finally show "take 6 (drop 42 bytes) ! i = replicate 6 0 ! i" using i by simp
  qed
  moreover have "length bytes = 72" using mem len by auto
  moreover have "bytes ! 49 = a" using n [of 41] f41 by simp
  moreover have "bytes ! 64 = b" using n [of 56] f56 by simp
  ultimately show ?thesis by simp
qed

text \<open>
  C9. For every window configuration, byte 41 of the 64-byte record is
  \<open>flatbed<<7 | stop_on_skew<<4 | disable_buffering<<3 | continue_on_double_feed\<close> and
  byte 56 is \<open>ahead_disable<<7 | deskew<<5 | double_feed_detector<<4 | full_size_scan<<2 |
  feed_slow<<1 | remove_shadow\<close> (as bytes, that is, modulo 256), in both serialisers; and
  in every buffer that \<^verbatim>\<open>set_windows\<close> sends to the device (front, and back in duplex
  mode) the record at offset 8 carries these two bytes and zeros in its reserved bytes
  34 to 39.
\<close>

theorem window_flag_bytes_and_gap:
  "(length output = 64 \<longrightarrow>
      fst (kvs3105_window_serialise output window) ! 41 = flag_byte_41 window
    \<and> fst (kvs3105_window_serialise output window) ! 56 = flag_byte_56 window
    \<and> fst (kvss905c_window_serialise output window) ! 41 = flag_byte_41 window
    \<and> fst (kvss905c_window_serialise output window) ! 56 = flag_byte_56 window)
   \<and> length (sent_windows (kvs3105_set_windows recorder window duplex
               \<lparr>requestsense = rs, device = []\<rparr>)) = (if duplex \<noteq> 0 then 2 else 1)
   \<and> length (sent_windows (kvss905c_set_windows recorder window duplex
               \<lparr>requestsense = rs, device = []\<rparr>)) = (if duplex \<noteq> 0 then 2 else 1)
   \<and> (\<forall>bytes \<in> set (sent_windows (kvs3105_set_windows recorder window duplex
                          \<lparr>requestsense = rs, device = []\<rparr>))
                  \<union> set (sent_windows (kvss905c_set_windows recorder window duplex
                          \<lparr>requestsense = rs, device = []\<rparr>)).
         length bytes = 72
       \<and> bytes ! (8 + 41) = flag_byte_41 window
       \<and> bytes ! (8 + 56) = flag_byte_56 window
       \<and> take 6 (drop (8 + 34) bytes) = replicate 6 0)"
proof (intro conjI impI ballI)
  fix bytes
  assume "bytes \<in> set (sent_windows (kvs3105_set_windows recorder window duplex
                          \<lparr>requestsense = rs, device = []\<rparr>))
                  \<union> set (sent_windows (kvss905c_set_windows recorder window duplex
                          \<lparr>requestsense = rs, device = []\<rparr>))"
  then consider
    (usb) "bytes = (replicate 8 0 @ fst (kvs3105_window_serialise (replicate 64 0) window))
                     [6 := 0, 7 := 64]
         \<or> bytes = (replicate 8 0 @ fst (kvs3105_window_serialise (replicate 64 0) window))
                     [6 := 0, 7 := 64, 8 := 0x80]"
  | (sg) "bytes = (replicate 8 0 @ fst (kvss905c_window_serialise (replicate 64 0) window))
                     [6 := 0, 7 := 64]
         \<or> bytes = (replicate 8 0 @ fst (kvss905c_window_serialise (replicate 64 0) window))
                     [6 := 0, 7 := 64, 8 := 0x80]"
    unfolding kvs3105_sent_windows kvss905c_sent_windows
    by (auto simp add: Let_def split: if_splits)
  then have "length bytes = 72 \<and> bytes ! 49 = flag_byte_41 window
         \<and> bytes ! 64 = flag_byte_56 window \<and> take 6 (drop 42 bytes) = replicate 6 0"
  proof cases
    case usb
    show ?thesis
      by (rule window_bytes_layout [OF _ _ _ _ usb])
         (simp_all add: kvs3105_window_serialise_length kvs3105_window_serialise_flags
            kvs3105_window_serialise_gap flag_byte_41_def flag_byte_56_def)
  next
    case sg
    show ?thesis
      by (rule window_bytes_layout [OF _ _ _ _ sg])
         (simp_all add: kvss905c_window_serialise_length kvss905c_window_serialise_flags
            kvss905c_window_serialise_gap flag_byte_41_def flag_byte_56_def)
  qed
  then show "length bytes = 72" and "bytes ! (8 + 41) = flag_byte_41 window"
    and "bytes ! (8 + 56) = flag_byte_56 window"
    and "take 6 (drop (8 + 34) bytes) = replicate 6 0"
    by simp_all
qed (simp_all add: kvs3105_window_serialise_flags kvss905c_window_serialise_flags
      flag_byte_41_def flag_byte_56_def kvs3105_sent_windows kvss905c_sent_windows Let_def)

theorem window_flag_bytes_and_gap_witness:
  "length (replicate 64 (0 :: u8)) = 64
   \<and> fst (kvs3105_window_serialise (replicate 64 0)
          (kvs3105_window_init\<lparr>flatbed := 1, stop_on_skew := 1, feed_slow := 1\<rparr>)) ! 41 = 0x90
   \<and> fst (kvss905c_window_serialise (replicate 64 0)
          (kvs3105_window_init\<lparr>flatbed := 1, stop_on_skew := 1, feed_slow := 1\<rparr>)) ! 56 = 0x12
   \<and> length (sent_windows (kvs3105_set_windows recorder
          (kvs3105_window_init\<lparr>flatbed := 1, stop_on_skew := 1, feed_slow := 1\<rparr>) 1
          \<lparr>requestsense = replicate 20 0, device = []\<rparr>)) = 2
   \<and> hd (sent_windows (kvs3105_set_windows recorder
          (kvs3105_window_init\<lparr>flatbed := 1, stop_on_skew := 1, feed_slow := 1\<rparr>) 1
          \<lparr>requestsense = replicate 20 0, device = []\<rparr>)) ! 49 = 0x90
   \<and> hd (sent_windows (kvs3105_set_windows recorder
          (kvs3105_window_init\<lparr>flatbed := 1, stop_on_skew := 1, feed_slow := 1\<rparr>) 1
          \<lparr>requestsense = replicate 20 0, device = []\<rparr>)) ! 64 = 0x12
   \<and> take 6 (drop 42 (hd (sent_windows (kvs3105_set_windows recorder
          (kvs3105_window_init\<lparr>flatbed := 1, stop_on_skew := 1, feed_slow := 1\<rparr>) 1
          \<lparr>requestsense = replicate 20 0, device = []\<rparr>)))) = replicate 6 0"
proof -
  let ?W = "kvs3105_window_init\<lparr>flatbed := 1, stop_on_skew := 1, feed_slow := 1\<rparr>"
  let ?sent = "sent_windows (kvs3105_set_windows recorder ?W 1
                 \<lparr>requestsense = replicate 20 0, device = []\<rparr>)"
  note th = window_flag_bytes_and_gap [of "replicate 64 0" ?W 1 "replicate 20 0"]
  have f41: "flag_byte_41 ?W = 0x90" and f56: "flag_byte_56 ?W = 0x12"
    by (simp_all add: flag_byte_41_def flag_byte_56_def kvs3105_window_init_def)
  from th have len: "length ?sent = 2" by simp
  then have "?sent \<noteq> []" by auto
  then have "hd ?sent \<in> set ?sent" by simp
  with th have "hd ?sent ! 49 = flag_byte_41 ?W \<and> hd ?sent ! 64 = flag_byte_56 ?W
      \<and> take 6 (drop 42 (hd ?sent)) = replicate 6 0"
    by simp
  moreover from th have "fst (kvs3105_window_serialise (replicate 64 0) ?W) ! 41 = flag_byte_41 ?W"
    and "fst (kvss905c_window_serialise (replicate 64 0) ?W) ! 56 = flag_byte_56 ?W"
    by simp_all
  ultimately show ?thesis using len f41 f56 by simp
qed

section \<open>The retry budget of the SCSI generic transport\<close>








section \<open>Sense data over the USB bulk transport\<close>

lemma length_fresh: "length (fresh n bus) = n"
  by (simp add: fresh_def)

lemma replicate_four: "replicate 4 x = [x, x, x, x]"
  and replicate_six: "replicate 6 x = [x, x, x, x, x, x]"
  by (simp_all add: eval_nat_numeral)

lemma request_sense_exchange:
  assumes len: "length b = 30"
  shows "length (transfers bus) < length (transfers (snd (usb_send_command request_sense_struct status b bus)))
       \<and> transfers (snd (usb_send_command request_sense_struct status b bus)) ! length (transfers bus)
           = request_sense_block
       \<and> (ret (bulk_replies bus (length (transfers bus))) = 0
          \<and> ret (bulk_replies bus (length (transfers bus) + 1)) = 0
          \<and> 30 \<le> length (received (bulk_replies bus (length (transfers bus) + 1)))
          \<longrightarrow> - 1 \<le> fst (fst (usb_send_command request_sense_struct status b bus))
            \<and> data_size (fst (snd (fst (usb_send_command request_sense_struct status b bus)))) = 18
            \<and> take 18 (drop 12 (snd (snd (snd (fst (usb_send_command request_sense_struct status b bus))))))
               = take 18 (drop 12 (received (bulk_replies bus (length (transfers bus) + 1)))))
       \<and> (ret (bulk_replies bus (length (transfers bus))) \<noteq> 0
          \<or> ret (bulk_replies bus (length (transfers bus) + 1)) \<noteq> 0
          \<or> length (received (bulk_replies bus (length (transfers bus) + 1))) < 12
          \<longrightarrow> fst (fst (usb_send_command request_sense_struct status b bus)) < - 1
            \<or> data_size (fst (snd (fst (usb_send_command request_sense_struct status b bus)))) = 0)"
  using len
  apply (simp add: usb_send_command_def request_sense_struct_def libusb_bulk_transfer_def
      usb_get_status_def Let_def CMD_IN_def CMD_OUT_def MAX_CMD_SIZE_def RESPONSE_SIZE_def
      REQUEST_SENSE_def overwrite_def bulk_header_def COMMAND_BLOCK_def COMMAND_CODE_def
      request_sense_block_def nth_append CHECK_CONDITION_def split_beta
      replicate_four replicate_six drop_take)
  apply auto
  done


text \<open>
  C5, amended. Whenever the first exchange of \<^verbatim>\<open>send_command\<close> gets as far as the status
  phase (\<^verbatim>\<open>usb_send_command\<close> returns 0 or -1) with a status that is not good, the next
  transfer the transport submits is the command block of a 6-byte REQUEST SENSE with
  allocation length 18. If that block is accepted and its data phase delivers the 12-byte
  header and the 18 sense bytes, \<^verbatim>\<open>send_command\<close> returns 2 with bytes 0 to 17 of the
  caller's 20-byte buffer holding the sense bytes just fetched and bytes 18 and 19
  unchanged. If the block is refused or the data phase fails or brings less than the
  header, \<^verbatim>\<open>send_command\<close> returns 1 and bytes 0 to 17 are zero.
\<close>

theorem send_command_request_sense:
  assumes first: "usb_send_command
                    (command_struct direction command command_length databuf data_length) 0
                    (fresh (12 + (if data_length > MAX_CMD_SIZE then data_length
                                  else MAX_CMD_SIZE)) bus) bus
                  = ((st, c, status, bb), bus1)"
    and st: "- 1 \<le> st"
    and status: "status \<noteq> 0"
    and len: "length sense = KVS3105_REQUEST_SENSE_SIZE"
  shows "length (transfers bus1)
           < length (transfers (snd (send_command direction command command_length databuf
                                       data_length sense bus)))
       \<and> transfers (snd (send_command direction command command_length databuf
                           data_length sense bus)) ! length (transfers bus1)
           = request_sense_block
       \<and> (ret (bulk_replies bus1 (length (transfers bus1))) = 0
          \<and> ret (bulk_replies bus1 (length (transfers bus1) + 1)) = 0
          \<and> 30 \<le> length (received (bulk_replies bus1 (length (transfers bus1) + 1)))
          \<longrightarrow> fst (fst (send_command direction command command_length databuf
                            data_length sense bus)) = 2
            \<and> snd (snd (fst (send_command direction command command_length databuf
                                data_length sense bus)))
               = take 18 (drop 12 (received (bulk_replies bus1 (length (transfers bus1) + 1))))
                 @ drop 18 sense)
       \<and> (ret (bulk_replies bus1 (length (transfers bus1))) \<noteq> 0
          \<or> ret (bulk_replies bus1 (length (transfers bus1) + 1)) \<noteq> 0
          \<or> length (received (bulk_replies bus1 (length (transfers bus1) + 1))) < 12
          \<longrightarrow> fst (fst (send_command direction command command_length databuf
                            data_length sense bus)) = 1
            \<and> snd (snd (fst (send_command direction command command_length databuf
                                data_length sense bus)))
               = replicate 18 0 @ drop 18 sense)"
proof -
  let ?R = "send_command direction command command_length databuf data_length sense bus"
  let ?b = "fresh (12 + RESPONSE_SIZE) bus1"
  let ?X = "usb_send_command request_sense_struct status ?b bus1"
  let ?fail = "fst (fst ?X) < - 1 \<or> data_size (fst (snd (fst ?X))) = 0"
  have lenb: "length ?b = 30" by (simp add: length_fresh RESPONSE_SIZE_def)
  note ex = request_sense_exchange [OF lenb, of bus1 status]
  from st have st': "st \<noteq> - 2" "\<not> st < - 1" by simp_all
  have R1: "snd ?R = snd ?X"
    and R2: "fst (fst ?R) = (if ?fail then 1 else 2)"
    and R3: "snd (snd (fst ?R))
             = (if ?fail then replicate 18 0 @ drop 18 sense
                else take 18 (drop 12 (snd (snd (snd (fst ?X)))))
                     @ drop (length (take 18 (drop 12 (snd (snd (snd (fst ?X)))))))
                         (replicate 18 0 @ drop 18 sense))"
    using st' status
    by (simp_all add: send_command_def first Let_def split_beta overwrite_def RESPONSE_SIZE_def)
  show ?thesis
  proof (intro conjI impI)
    show "length (transfers bus1) < length (transfers (snd ?R))"
      using ex by (simp add: R1)
    show "transfers (snd ?R) ! length (transfers bus1) = request_sense_block"
      using ex by (simp add: R1)
  next
    assume ok: "ret (bulk_replies bus1 (length (transfers bus1))) = 0
          \<and> ret (bulk_replies bus1 (length (transfers bus1) + 1)) = 0
          \<and> 30 \<le> length (received (bulk_replies bus1 (length (transfers bus1) + 1)))"
    with ex have nf: "\<not> ?fail"
      and bytes: "take 18 (drop 12 (snd (snd (snd (fst ?X)))))
               = take 18 (drop 12 (received (bulk_replies bus1 (length (transfers bus1) + 1))))"
      by simp_all
    from nf show "fst (fst ?R) = 2" by (simp add: R2)
    have "length (take 18 (drop 12 (received (bulk_replies bus1 (length (transfers bus1) + 1)))))
          = 18"
      using ok by auto
    with nf bytes show "snd (snd (fst ?R))
               = take 18 (drop 12 (received (bulk_replies bus1 (length (transfers bus1) + 1))))
                 @ drop 18 sense"
      by (simp add: R3)
  next
    assume "ret (bulk_replies bus1 (length (transfers bus1))) \<noteq> 0
          \<or> ret (bulk_replies bus1 (length (transfers bus1) + 1)) \<noteq> 0
          \<or> length (received (bulk_replies bus1 (length (transfers bus1) + 1))) < 12"
    with ex [THEN conjunct2, THEN conjunct2, THEN conjunct2] have f: ?fail
      by (rule mp)
    from f show "fst (fst ?R) = 1" by (simp add: R2)
    from f show "snd (snd (fst ?R)) = replicate 18 0 @ drop 18 sense" by (simp add: R3)
  qed
qed

text \<open>
  C5, as stated: TEST UNIT READY answered with status 2 (check condition), after which
  the data phase of the follow-up REQUEST SENSE times out. The error is surfaced (return
  code 1) with no sense data in the caller's buffer: bytes 0 to 17 are zero and bytes 18
  and 19 are what the caller had there.
\<close>

theorem send_command_sense_lost:
  "fst (send_command SG_DXFER_FROM_DEV [0, 0, 0, 0, 0, 0] 6 None 0 (replicate 20 0xAA)
          (bus_script [usb_ok, usb_status 2, usb_ok, usb_timeout]))
   = (1, None, replicate 18 0 @ [0xAA, 0xAA])"
  by (simp add: send_command_def command_struct_def usb_send_command_def
      request_sense_struct_def libusb_bulk_transfer_def
      usb_get_status_def Let_def CMD_IN_def CMD_OUT_def CMD_NONE_def MAX_CMD_SIZE_def
      RESPONSE_SIZE_def
      REQUEST_SENSE_def overwrite_def bulk_header_def COMMAND_BLOCK_def COMMAND_CODE_def
      CHECK_CONDITION_def split_beta bus_script_def usb_ok_def usb_status_def
      usb_timeout_def fresh_def be32_at_def be32_def nth_append replicate_two)


theorem send_command_request_sense_witness:
  "fst (fst (send_command SG_DXFER_FROM_DEV [0, 0, 0, 0, 0, 0] 6 None 0 (replicate 20 0xAA)
          (bus_script [usb_ok, usb_status 2, usb_ok, usb_sense_data, usb_status 0]))) = 2
   \<and> snd (snd (fst (send_command SG_DXFER_FROM_DEV [0, 0, 0, 0, 0, 0] 6 None 0
          (replicate 20 0xAA)
          (bus_script [usb_ok, usb_status 2, usb_ok, usb_sense_data, usb_status 0]))))
     = [0xf0, 0, 0x05, 0, 0, 0, 0, 10, 0, 0, 0, 0, 0x24, 0, 0, 0, 0, 0, 0xAA, 0xAA]
   \<and> transfers (snd (send_command SG_DXFER_FROM_DEV [0, 0, 0, 0, 0, 0] 6 None 0
          (replicate 20 0xAA)
          (bus_script [usb_ok, usb_status 2, usb_ok, usb_sense_data, usb_status 0]))) ! 2
     = request_sense_block"
proof -
  let ?bus = "bus_script [usb_ok, usb_status 2, usb_ok, usb_sense_data, usb_status 0]"
  let ?X = "usb_send_command (command_struct SG_DXFER_FROM_DEV [0, 0, 0, 0, 0, 0] 6 None 0) 0
              (fresh (12 + (if 0 > MAX_CMD_SIZE then 0 else MAX_CMD_SIZE)) ?bus) ?bus"
  have X: "?X = ((0, command_struct SG_DXFER_FROM_DEV [0, 0, 0, 0, 0, 0] 6 None 0, 2,
                  [0, 0, 0, 24, 0, 1, 0x90, 0, 0, 0, 0, 0,
                   0, 0, 0, 0, 0, 0, 0, 0, 0, 0, 0, 0]),
                 ?bus\<lparr>transfers :=
                   [\<lparr>xfer_endpoint = CMD_OUT,
                     xfer_bytes = [0, 0, 0, 24, 0, 1, 0x90, 0, 0, 0, 0, 0,
                                   0, 0, 0, 0, 0, 0, 0, 0, 0, 0, 0, 0],
                     xfer_size = 24\<rparr>,
                    \<lparr>xfer_endpoint = CMD_IN, xfer_bytes = [], xfer_size = 16\<rparr>]\<rparr>)"
    by (simp add: command_struct_def usb_send_command_def libusb_bulk_transfer_def
        usb_get_status_def Let_def CMD_IN_def CMD_OUT_def CMD_NONE_def MAX_CMD_SIZE_def
        overwrite_def bulk_header_def COMMAND_BLOCK_def COMMAND_CODE_def
        CHECK_CONDITION_def split_beta bus_script_def usb_ok_def usb_status_def
        fresh_def be32_at_def be32_def nth_append replicate_four replicate_six)
  note th = send_command_request_sense [OF X, of "replicate 20 0xAA"]
  have "(replicate 20 (0xAA :: u8)) = replicate 18 0xAA @ [0xAA, 0xAA]"
    by (simp add: replicate_add [symmetric] replicate_two [symmetric] del: replicate_two)
  then have tail: "drop 18 (replicate 20 (0xAA :: u8)) = [0xAA, 0xAA]"
    by simp
  from th tail show ?thesis
    by (simp add: KVS3105_REQUEST_SENSE_SIZE_def bus_script_def usb_ok_def usb_sense_data_def
        numeral_2_eq_2)
qed

end
